theory Spec2Isabelle
  imports Main "HOL-Library.Sublist"
begin

section \<open>JavaScript values as the program sees them\<close>

text \<open>
  \<^verbatim>\<open>functions.js\<close> is a plain script: every value it handles is either a string constant
  of its own or (part of) a JSON document parsed by \<^verbatim>\<open>response.json()\<close>. A parsed object is
  an association list in the order of its keys (a parsed object has every key once); a
  number is carried as the text that JavaScript's number-to-string conversion gives for
  it, since the program never computes with numbers: it only reads properties, compares
  with \<^verbatim>\<open>==\<close> against a string constant, interpolates into a template literal and logs.
\<close>

datatype jsval =
    JUndefined
  | JNull
  | JBool bool
  | JNum string
  | JStr string
  | JArr "jsval list"
  | JObj "(string \<times> jsval) list"

text \<open>
  What a rejected promise carries: \<open>TypeError\<close> for a property read on \<^verbatim>\<open>undefined\<close> or
  \<^verbatim>\<open>null\<close> and for an object that cannot be converted to a primitive, \<open>NetworkError\<close> for a
  \<^verbatim>\<open>fetch\<close> that rejects, \<open>SyntaxError\<close> for a body that \<^verbatim>\<open>response.json()\<close> cannot parse.
\<close>

datatype error = TypeError | NetworkError | SyntaxError

text \<open>
  The property read \<^verbatim>\<open>v.k\<close>, for the property names the program reads (\<^verbatim>\<open>data\<close>,
  \<^verbatim>\<open>invitationUrl\<close>, \<^verbatim>\<open>connection\<close>, \<^verbatim>\<open>id\<close>, \<^verbatim>\<open>records\<close>, \<^verbatim>\<open>status\<close>, \<^verbatim>\<open>state\<close>): none of them
  is inherited from a prototype, so a missing key reads as \<^verbatim>\<open>undefined\<close>, on a primitive
  and on an array as well; only \<^verbatim>\<open>undefined\<close> and \<^verbatim>\<open>null\<close> throw.
\<close>

fun js_get :: "jsval \<Rightarrow> string \<Rightarrow> error + jsval" where
  "js_get JUndefined k = Inl TypeError"
| "js_get JNull k = Inl TypeError"
| "js_get (JObj kvs) k = Inr (case map_of kvs k of Some v \<Rightarrow> v | None \<Rightarrow> JUndefined)"
| "js_get v k = Inr JUndefined"

text \<open>A chain of property reads \<^verbatim>\<open>v.k1.k2...\<close>, left to right; the first throw ends it.\<close>

fun js_path :: "jsval \<Rightarrow> string list \<Rightarrow> error + jsval" where
  "js_path v [] = Inr v"
| "js_path v (k # ks) = (case js_get v k of Inl e \<Rightarrow> Inl e | Inr x \<Rightarrow> js_path x ks)"

text \<open>
  \<^verbatim>\<open>Array.prototype.join\<close> with the separator \<^verbatim>\<open>,\<close> over the converted elements: the first
  element that throws ends the conversion.
\<close>

fun join_comma :: "(error + string) list \<Rightarrow> error + string" where
  "join_comma [] = Inr []"
| "join_comma [Inl e] = Inl e"
| "join_comma [Inr s] = Inr s"
| "join_comma (Inl e # r # rs) = Inl e"
| "join_comma (Inr s # r # rs) =
     (case join_comma (r # rs) of Inl e \<Rightarrow> Inl e | Inr t \<Rightarrow> Inr (s @ '','' @ t))"

text \<open>
  The conversion to a string that a template literal applies to an interpolated value.
  An array is joined with commas, \<^verbatim>\<open>undefined\<close> and \<^verbatim>\<open>null\<close> elements giving the empty
  string. A parsed object answers \<^verbatim>\<open>[object Object]\<close> through the inherited \<^verbatim>\<open>toString\<close>; a
  key \<^verbatim>\<open>toString\<close> of its own shadows the inherited method with a value that cannot be
  called, the inherited \<^verbatim>\<open>valueOf\<close> returns the object itself, and the conversion throws.
\<close>

fun js_to_string :: "jsval \<Rightarrow> error + string" where
  "js_to_string JUndefined = Inr ''undefined''"
| "js_to_string JNull = Inr ''null''"
| "js_to_string (JBool b) = Inr (if b then ''true'' else ''false'')"
| "js_to_string (JNum t) = Inr t"
| "js_to_string (JStr s) = Inr s"
| "js_to_string (JArr xs) =
     join_comma (map (\<lambda>x. case x of JUndefined \<Rightarrow> Inr [] | JNull \<Rightarrow> Inr [] | _ \<Rightarrow> js_to_string x) xs)"
| "js_to_string (JObj kvs) =
     (if ''toString'' \<in> set (map fst kvs) then Inl TypeError else Inr ''[object Object]'')"

text \<open>
  The comparison \<^verbatim>\<open>v == t\<close> against a string constant \<open>t\<close> that does not read as a number,
  as \<^verbatim>\<open>'trusted'\<close> and \<^verbatim>\<open>'done'\<close> do not. A string is compared as it is; \<^verbatim>\<open>undefined\<close> and
  \<^verbatim>\<open>null\<close> equal no string; a number or a boolean is compared with the number that \<open>t\<close>
  converts to, which is NaN, so the answer is false; an array or an object is first
  converted to a primitive, which for parsed JSON is the string \<open>js_to_string\<close> gives (or
  the same throw).
\<close>

fun js_loose_eq :: "jsval \<Rightarrow> string \<Rightarrow> error + bool" where
  "js_loose_eq (JStr s) t = Inr (s = t)"
| "js_loose_eq JUndefined t = Inr False"
| "js_loose_eq JNull t = Inr False"
| "js_loose_eq (JBool b) t = Inr False"
| "js_loose_eq (JNum n) t = Inr False"
| "js_loose_eq v t = (case js_to_string v of Inl e \<Rightarrow> Inl e | Inr p \<Rightarrow> Inr (p = t))"

text \<open>
  \<^verbatim>\<open>JSON.stringify\<close>, as the document its text denotes: what the receiver parses. A
  property whose value is \<^verbatim>\<open>undefined\<close> is left out, an \<^verbatim>\<open>undefined\<close> array element becomes
  \<^verbatim>\<open>null\<close>, every other value is written as it is, recursively, in the order of the keys.
  (For \<^verbatim>\<open>undefined\<close> itself there is no text, and it stays \<^verbatim>\<open>undefined\<close>.)
\<close>

fun json_stringify :: "jsval \<Rightarrow> jsval" where
  "json_stringify (JArr xs) =
     JArr (map (\<lambda>x. case x of JUndefined \<Rightarrow> JNull | _ \<Rightarrow> json_stringify x) xs)"
| "json_stringify (JObj kvs) =
     JObj (concat (map (\<lambda>(k, v). case v of JUndefined \<Rightarrow> [] | _ \<Rightarrow> [(k, json_stringify v)]) kvs))"
| "json_stringify v = v"

text \<open>A value that holds \<^verbatim>\<open>undefined\<close> nowhere: a JSON document.\<close>

fun defined :: "jsval \<Rightarrow> bool" where
  "defined JUndefined = False"
| "defined (JArr xs) = (\<forall>x\<in>set xs. defined x)"
| "defined (JObj kvs) = (\<forall>(k, v)\<in>set kvs. defined v)"
| "defined v = True"

section \<open>The remote service and the observable effects\<close>

text \<open>
  \<^verbatim>\<open>getRequest\<close> and \<^verbatim>\<open>postRequest\<close> hand a URL to \<^verbatim>\<open>fetch\<close> and return what
  \<^verbatim>\<open>response.json()\<close> resolves to; neither looks at the HTTP status. A request is what goes
  to the service: the URL and, for a POST, the body \<^verbatim>\<open>JSON.stringify(data)\<close>, where \<^verbatim>\<open>data\<close>
  is \<^verbatim>\<open>{}\<close> when the argument is missing. The remote service is any deterministic machine
  over a state \<open>'w\<close> of its own: it answers a request with a parsed document or with a
  rejection, and moves to its next state.
\<close>

datatype request = GET string | POST string jsval

type_synonym 'w service = "'w \<Rightarrow> request \<Rightarrow> (error + jsval) \<times> 'w"

definition getRequest :: "'w service \<Rightarrow> string \<Rightarrow> 'w \<Rightarrow> (error + jsval) \<times> 'w" where
  "getRequest fetch url w = fetch w (GET url)"

definition post_body :: "jsval \<Rightarrow> jsval" where
  "post_body data = json_stringify (case data of JUndefined \<Rightarrow> JObj [] | _ \<Rightarrow> data)"

definition postRequest :: "'w service \<Rightarrow> string \<Rightarrow> jsval \<Rightarrow> 'w \<Rightarrow> (error + jsval) \<times> 'w" where
  "postRequest fetch url data w = fetch w (POST url (post_body data))"

text \<open>
  The four operations of the service client, and what an execution leaves behind: the
  requests sent, what each operation returned or threw, the delays, the console lines.
\<close>

datatype operation =
  CreateInvitation | GetConnectionStatus | CreateCredentialOffer | GetCredentialState

datatype event =
    Request operation request
  | Result operation "error + jsval"
  | Delay nat
  | Log jsval

record 'w state =
  world :: 'w
  history :: "event list"

definition record_event :: "event \<Rightarrow> 'w state \<Rightarrow> 'w state" where
  "record_event e s = s\<lparr>history := history s @ [e]\<rparr>"

text \<open>One HTTP exchange made on behalf of an operation.\<close>

definition send_get :: "operation \<Rightarrow> 'w service \<Rightarrow> string \<Rightarrow> 'w state \<Rightarrow> (error + jsval) \<times> 'w state" where
  "send_get op fetch url s =
     (case getRequest fetch url (world s) of
        (response, w) \<Rightarrow> (response, \<lparr>world = w, history = history s @ [Request op (GET url)]\<rparr>))"

definition send_post ::
  "operation \<Rightarrow> 'w service \<Rightarrow> string \<Rightarrow> jsval \<Rightarrow> 'w state \<Rightarrow> (error + jsval) \<times> 'w state" where
  "send_post op fetch url data s =
     (case postRequest fetch url data (world s) of
        (response, w) \<Rightarrow>
          (response, \<lparr>world = w, history = history s @ [Request op (POST url (post_body data))]\<rparr>))"

text \<open>An operation settles: its promise resolves with a value or rejects with an error.\<close>

definition settle :: "operation \<Rightarrow> error + jsval \<Rightarrow> 'w state \<Rightarrow> (error + jsval) \<times> 'w state" where
  "settle op r s = (r, record_event (Result op r) s)"

definition read_path :: "error + jsval \<Rightarrow> string list \<Rightarrow> error + jsval" where
  "read_path response ks = (case response of Inl e \<Rightarrow> Inl e | Inr v \<Rightarrow> js_path v ks)"

section \<open>The service client\<close>

definition invitation_url :: string where
  "invitation_url = ''http://<YOUR OCM IP OR DOMAIN>/v1/invitation-url?alias=trust''"

definition connection_url :: string where
  "connection_url = ''http://<YOUR OCM IP OR DOMAIN>/v1/connections/''"

definition offer_url :: string where
  "offer_url = ''http://<YOUR OCM IP OR DOMAIN>/v1/create-offer-credential''"

definition credential_url :: string where
  "credential_url = ''http://<YOUR OCM IP OR DOMAIN>/v1/credential/''"

definition credential_definition_id :: string where
  "credential_definition_id = ''<YOUR CREDENTIAL DEFINITION ID>''"

text \<open>
  What \<^verbatim>\<open>createInvitation\<close> returns, \<^verbatim>\<open>{invitationUrl: ..., connectionId: ...}\<close>: an object
  built by the program itself, with exactly these two properties, so reading either of
  them cannot fail. In the history it stands as the object it is.
\<close>

record invitation =
  invitationUrl :: jsval
  connectionId :: jsval

definition invitation_value :: "invitation \<Rightarrow> jsval" where
  "invitation_value i = JObj [(''invitationUrl'', invitationUrl i), (''connectionId'', connectionId i)]"

text \<open>
  \<^verbatim>\<open>createInvitation\<close> calls \<^verbatim>\<open>postRequest\<close> with no \<^verbatim>\<open>data\<close>, so with its default \<^verbatim>\<open>{}\<close>, and reads
  \<^verbatim>\<open>response.data.invitationUrl\<close>, then \<^verbatim>\<open>response.data.connection.id\<close>.
\<close>

definition invitation_of :: "jsval \<Rightarrow> error + invitation" where
  "invitation_of response =
     (case js_path response [''data'', ''invitationUrl''] of
        Inl e \<Rightarrow> Inl e
      | Inr u \<Rightarrow>
          (case js_path response [''data'', ''connection'', ''id''] of
             Inl e \<Rightarrow> Inl e
           | Inr c \<Rightarrow> Inr \<lparr>invitationUrl = u, connectionId = c\<rparr>))"

definition createInvitation ::
  "'w service \<Rightarrow> string \<Rightarrow> 'w state \<Rightarrow> (error + invitation) \<times> 'w state" where
  "createInvitation fetch url s =
     (case send_post CreateInvitation fetch url JUndefined s of
        (response, s1) \<Rightarrow>
          (case (case response of Inl e \<Rightarrow> Inl e | Inr r \<Rightarrow> invitation_of r) of
             Inl e \<Rightarrow> (Inl e, record_event (Result CreateInvitation (Inl e)) s1)
           | Inr i \<Rightarrow> (Inr i, record_event (Result CreateInvitation (Inr (invitation_value i))) s1)))"

text \<open>
  \<^verbatim>\<open>getConnectionStatus\<close> interpolates the connection id into the URL before anything is
  sent; an id that cannot be converted to a string throws there.
\<close>

definition getConnectionStatus ::
  "'w service \<Rightarrow> jsval \<Rightarrow> string \<Rightarrow> 'w state \<Rightarrow> (error + jsval) \<times> 'w state" where
  "getConnectionStatus fetch connection_id url s =
     (case js_to_string connection_id of
        Inl e \<Rightarrow> settle GetConnectionStatus (Inl e) s
      | Inr cid \<Rightarrow>
          (case send_get GetConnectionStatus fetch (url @ cid) s of
             (response, s1) \<Rightarrow>
               settle GetConnectionStatus
                 (read_path response [''data'', ''records'', ''status'']) s1))"

definition offer_body :: "jsval \<Rightarrow> jsval \<Rightarrow> string \<Rightarrow> jsval" where
  "offer_body connection_id attributes credentialDefinitionId =
     JObj [(''connectionId'', connection_id),
           (''credentialDefinitionId'', JStr credentialDefinitionId),
           (''comment'', JStr []),
           (''attributes'', attributes),
           (''autoAcceptCredential'', JStr ''always'')]"

definition createCredentialOffer ::
  "'w service \<Rightarrow> jsval \<Rightarrow> jsval \<Rightarrow> string \<Rightarrow> string \<Rightarrow> 'w state \<Rightarrow> (error + jsval) \<times> 'w state" where
  "createCredentialOffer fetch connection_id attributes credentialDefinitionId url s =
     (case send_post CreateCredentialOffer fetch url
             (offer_body connection_id attributes credentialDefinitionId) s of
        (response, s1) \<Rightarrow>
          settle CreateCredentialOffer (read_path response [''data'', ''id'']) s1)"

definition getCredentialState ::
  "'w service \<Rightarrow> jsval \<Rightarrow> string \<Rightarrow> 'w state \<Rightarrow> (error + jsval) \<times> 'w state" where
  "getCredentialState fetch credentialId url s =
     (case js_to_string credentialId of
        Inl e \<Rightarrow> settle GetCredentialState (Inl e) s
      | Inr cid \<Rightarrow>
          (case send_get GetCredentialState fetch (url @ cid) s of
             (response, s1) \<Rightarrow>
               settle GetCredentialState (read_path response [''data'', ''state'']) s1))"

text \<open>\<^verbatim>\<open>wait(ms)\<close> resolves after the timer; \<^verbatim>\<open>console.log\<close> prints a value.\<close>

definition wait :: "nat \<Rightarrow> 'w state \<Rightarrow> 'w state" where
  "wait ms s = record_event (Delay ms) s"

definition console_log :: "jsval \<Rightarrow> 'w state \<Rightarrow> 'w state" where
  "console_log v s = record_event (Log v) s"

section \<open>The orchestrator\<close>

text \<open>
  How far an execution got: it ran to its end, it was ended by an error that nothing
  catches, or it is still inside a polling loop after the number of iterations it was
  followed for.
\<close>

datatype outcome = Finished | Threw error | Running

text \<open>
  The first \<^verbatim>\<open>while (true)\<close> of \<^verbatim>\<open>tests\<close>: wait, poll, log, leave on \<^verbatim>\<open>== 'trusted'\<close>. The
  number bounds the iterations that are followed, not the loop, which has no bound.
\<close>

fun connection_loop :: "nat \<Rightarrow> 'w service \<Rightarrow> jsval \<Rightarrow> 'w state \<Rightarrow> outcome \<times> 'w state" where
  "connection_loop 0 fetch connection_id s = (Running, s)"
| "connection_loop (Suc n) fetch connection_id s =
     (case getConnectionStatus fetch connection_id connection_url (wait 2500 s) of
        (Inl e, s1) \<Rightarrow> (Threw e, s1)
      | (Inr connectionStatus, s1) \<Rightarrow>
          (case js_loose_eq connectionStatus ''trusted'' of
             Inl e \<Rightarrow> (Threw e, console_log connectionStatus s1)
           | Inr True \<Rightarrow> (Finished, console_log connectionStatus s1)
           | Inr False \<Rightarrow> connection_loop n fetch connection_id (console_log connectionStatus s1)))"

text \<open>The second loop: wait, poll, log, leave on \<^verbatim>\<open>== 'done'\<close>.\<close>

fun credential_loop :: "nat \<Rightarrow> 'w service \<Rightarrow> jsval \<Rightarrow> 'w state \<Rightarrow> outcome \<times> 'w state" where
  "credential_loop 0 fetch credentialId s = (Running, s)"
| "credential_loop (Suc n) fetch credentialId s =
     (case getCredentialState fetch credentialId credential_url (wait 2500 s) of
        (Inl e, s1) \<Rightarrow> (Threw e, s1)
      | (Inr credentialState, s1) \<Rightarrow>
          (case js_loose_eq credentialState ''done'' of
             Inl e \<Rightarrow> (Threw e, console_log credentialState s1)
           | Inr True \<Rightarrow> (Finished, console_log credentialState s1)
           | Inr False \<Rightarrow> credential_loop n fetch credentialId (console_log credentialState s1)))"

definition attribute :: "string \<Rightarrow> string \<Rightarrow> jsval" where
  "attribute n v = JObj [(''name'', JStr n), (''value'', JStr v)]"

definition attributes :: jsval where
  "attributes = JArr
     [attribute ''user_id'' ''testuser@merlot-education.eu'',
      attribute ''course_name'' ''Example Course'',
      attribute ''grade'' ''15/15 - passed'',
      attribute ''variable_data'' ''whatevs'']"

definition invitation_message :: "string \<Rightarrow> jsval" where
  "invitation_message u = JStr (''create a QR code from this and scan it with the PCM: '' @ u)"

text \<open>
  \<^verbatim>\<open>tests\<close>, with every operation at its default URL and the default credential definition
  id. The script runs in sloppy mode, so the assignment to the undeclared
  \<^verbatim>\<open>invitationObject\<close> makes a global. The console line interpolates
  \<^verbatim>\<open>invitationObject.invitationUrl\<close>, which throws for a value that has no string form.
  The number \<open>fuel\<close> bounds the iterations each of the two loops is followed for.
\<close>

definition tests :: "nat \<Rightarrow> 'w service \<Rightarrow> 'w state \<Rightarrow> outcome \<times> 'w state" where
  "tests fuel fetch s =
     (case createInvitation fetch invitation_url s of
        (Inl e, s1) \<Rightarrow> (Threw e, s1)
      | (Inr invitationObject, s1) \<Rightarrow>
          (case js_to_string (invitationUrl invitationObject) of
             Inl e \<Rightarrow> (Threw e, s1)
           | Inr link \<Rightarrow>
               (case connection_loop fuel fetch (connectionId invitationObject)
                       (wait 5000 (console_log (invitation_message link) s1)) of
                  (Finished, s2) \<Rightarrow>
                    (case createCredentialOffer fetch (connectionId invitationObject) attributes
                            credential_definition_id offer_url s2 of
                       (Inl e, s3) \<Rightarrow> (Threw e, s3)
                     | (Inr credentialId, s3) \<Rightarrow> credential_loop fuel fetch credentialId s3)
                | (out, s2) \<Rightarrow> (out, s2))))"

section \<open>Scripted services\<close>

text \<open>
  A service that answers from a script, as a test double does: one answer for each of
  the two POST endpoints, and for each of the two polled endpoints a list of status
  strings handed out one per poll. A poll beyond the end of its list, and a request to
  any other URL, is rejected.
\<close>

record script =
  invitation_response :: jsval
  connection_statuses :: "string list"
  offer_response :: jsval
  credential_states :: "string list"

definition status_envelope :: "string \<Rightarrow> jsval" where
  "status_envelope st = JObj [(''data'', JObj [(''records'', JObj [(''status'', JStr st)])])]"

definition state_envelope :: "string \<Rightarrow> jsval" where
  "state_envelope st = JObj [(''data'', JObj [(''state'', JStr st)])]"

fun scripted :: "script service" where
  "scripted m (POST url body) =
     (if url = invitation_url then (Inr (invitation_response m), m)
      else if url = offer_url then (Inr (offer_response m), m)
      else (Inl NetworkError, m))"
| "scripted m (GET url) =
     (if prefix connection_url url then
        (case connection_statuses m of
           [] \<Rightarrow> (Inl NetworkError, m)
         | st # rest \<Rightarrow> (Inr (status_envelope st), m\<lparr>connection_statuses := rest\<rparr>))
      else if prefix credential_url url then
        (case credential_states m of
           [] \<Rightarrow> (Inl NetworkError, m)
         | st # rest \<Rightarrow> (Inr (state_envelope st), m\<lparr>credential_states := rest\<rparr>))
      else (Inl NetworkError, m))"

text \<open>
  A service that never runs out: its state counts the requests answered, and the
  \<open>k\<close>-th answer carries the credential state \<open>f k\<close>.
\<close>

definition endless :: "(nat \<Rightarrow> string) \<Rightarrow> nat service" where
  "endless f k rq = (Inr (state_envelope (f k)), Suc k)"

text \<open>
  A service that answers every poll with a one-element array in place of the string:
  the status \<^verbatim>\<open>["trusted"]\<close>, the state \<^verbatim>\<open>["done"]\<close>. Its two POST answers are those of the
  end-to-end scenario.
\<close>

fun array_answers :: "unit service" where
  "array_answers u (POST url body) =
     (if url = invitation_url then
        (Inr (JObj [(''data'', JObj [(''invitationUrl'', JStr ''https://wallet.example/inv/abc''),
                                    (''connection'', JObj [(''id'', JStr ''conn-1'')])])]), u)
      else if url = offer_url then (Inr (JObj [(''data'', JObj [(''id'', JStr ''cred-1'')])]), u)
      else (Inl NetworkError, u))"
| "array_answers u (GET url) =
     (if prefix connection_url url then
        (Inr (JObj [(''data'', JObj [(''records'', JObj [(''status'', JArr [JStr ''trusted''])])])]), u)
      else if prefix credential_url url then
        (Inr (JObj [(''data'', JObj [(''state'', JArr [JStr ''done''])])]), u)
      else (Inl NetworkError, u))"

text \<open>What is counted in a history.\<close>

fun is_delay :: "event \<Rightarrow> bool" where
  "is_delay (Delay ms) = True"
| "is_delay e = False"

fun is_request_of :: "operation \<Rightarrow> event \<Rightarrow> bool" where
  "is_request_of op (Request op' rq) = (op = op')"
| "is_request_of op e = False"

fun is_result_of :: "operation \<Rightarrow> event \<Rightarrow> bool" where
  "is_result_of op (Result op' r) = (op = op')"
| "is_result_of op e = False"

definition delays :: "event list \<Rightarrow> nat" where
  "delays es = length (filter is_delay es)"

definition requests_of :: "operation \<Rightarrow> event list \<Rightarrow> nat" where
  "requests_of op es = length (filter (is_request_of op) es)"

definition polls_of :: "operation \<Rightarrow> event list \<Rightarrow> nat" where
  "polls_of op es = length (filter (is_result_of op) es)"

fun is_request :: "event \<Rightarrow> bool" where
  "is_request (Request op rq) = True"
| "is_request e = False"

text \<open>
  One round of a polling loop that the service answers with the string \<open>st\<close>: the delay,
  the request, the status returned, the console line.
\<close>

definition poll_round :: "operation \<Rightarrow> string \<Rightarrow> string \<Rightarrow> event list" where
  "poll_round op url st =
     [Delay 2500, Request op (GET url), Result op (Inr (JStr st)), Log (JStr st)]"

text \<open>The script of the end-to-end scenario, and the history it leaves.\<close>

definition example_script :: script where
  "example_script =
     \<lparr>invitation_response =
        JObj [(''data'', JObj [(''invitationUrl'', JStr ''https://wallet.example/inv/abc''),
                              (''connection'', JObj [(''id'', JStr ''conn-1'')])])],
      connection_statuses = [''pending'', ''pending'', ''trusted''],
      offer_response = JObj [(''data'', JObj [(''id'', JStr ''cred-1'')])],
      credential_states = [''offer-sent'', ''done'']\<rparr>"

definition example_invited :: "event list" where
  "example_invited =
     [Request CreateInvitation (POST invitation_url (JObj [])),
      Result CreateInvitation
        (Inr (JObj [(''invitationUrl'', JStr ''https://wallet.example/inv/abc''),
                    (''connectionId'', JStr ''conn-1'')])),
      Log (invitation_message ''https://wallet.example/inv/abc''),
      Delay 5000]"

definition example_connecting :: "event list" where
  "example_connecting =
     example_invited
     @ poll_round GetConnectionStatus (connection_url @ ''conn-1'') ''pending''
     @ poll_round GetConnectionStatus (connection_url @ ''conn-1'') ''pending''
     @ poll_round GetConnectionStatus (connection_url @ ''conn-1'') ''trusted''"

definition example_offer :: "event list" where
  "example_offer =
     [Request CreateCredentialOffer
        (POST offer_url (offer_body (JStr ''conn-1'') attributes credential_definition_id)),
      Result CreateCredentialOffer (Inr (JStr ''cred-1''))]"

definition example_issuing :: "event list" where
  "example_issuing =
     poll_round GetCredentialState (credential_url @ ''cred-1'') ''offer-sent''
     @ poll_round GetCredentialState (credential_url @ ''cred-1'') ''done''"

text \<open>
  The same scenario with a service that stops answering after the first status: the
  second poll is rejected.
\<close>

definition example_failing :: "event list" where
  "example_failing =
     example_invited
     @ poll_round GetConnectionStatus (connection_url @ ''conn-1'') ''pending''
     @ [Delay 2500,
        Request GetConnectionStatus (GET (connection_url @ ''conn-1'')),
        Result GetConnectionStatus (Inl NetworkError)]"

section \<open>The shape of every history\<close>

text \<open>
  The events one polling loop can add, with the outcome they belong to: rounds that
  compared unequal, then nothing more (the loop is still polling), or a round that ends
  the loop: the operation threw before or after its request, the comparison threw, or
  the comparison held.
\<close>

inductive loop_events :: "operation \<Rightarrow> string \<Rightarrow> outcome \<Rightarrow> event list \<Rightarrow> bool"
  for op :: operation and t :: string where
  still_polling: "loop_events op t Running []"
| unsent: "loop_events op t (Threw e) [Delay 2500, Result op (Inl e)]"
| poll_failed: "loop_events op t (Threw e) [Delay 2500, Request op rq, Result op (Inl e)]"
| compare_failed: "js_loose_eq v t = Inl e \<Longrightarrow>
    loop_events op t (Threw e) [Delay 2500, Request op rq, Result op (Inr v), Log v]"
| leave: "js_loose_eq v t = Inr True \<Longrightarrow>
    loop_events op t Finished [Delay 2500, Request op rq, Result op (Inr v), Log v]"
| again: "js_loose_eq v t = Inr False \<Longrightarrow> loop_events op t out es \<Longrightarrow>
    loop_events op t out (Delay 2500 # Request op rq # Result op (Inr v) # Log v # es)"

text \<open>The console line that surfaces the invitation URL of an invitation.\<close>

definition surfaced :: "jsval \<Rightarrow> jsval \<Rightarrow> bool" where
  "surfaced i m \<longleftrightarrow>
     (\<exists>u link. js_get i ''invitationUrl'' = Inr u \<and> js_to_string u = Inr link
        \<and> m = invitation_message link)"

text \<open>The events one run of \<^verbatim>\<open>tests\<close> can add, phase by phase.\<close>

inductive flow_events :: "outcome \<Rightarrow> event list \<Rightarrow> bool" where
  invitation_failed:
    "flow_events (Threw e) [Request CreateInvitation rq, Result CreateInvitation (Inl e)]"
| message_failed:
    "flow_events (Threw e) [Request CreateInvitation rq, Result CreateInvitation (Inr i)]"
| connecting:
    "loop_events GetConnectionStatus ''trusted'' out es \<Longrightarrow> out \<noteq> Finished \<Longrightarrow>
     surfaced i m \<Longrightarrow>
     flow_events out
       (Request CreateInvitation rq # Result CreateInvitation (Inr i) # Log m # Delay 5000 # es)"
| offer_failed:
    "loop_events GetConnectionStatus ''trusted'' Finished es \<Longrightarrow>
     surfaced i m \<Longrightarrow>
     flow_events (Threw e)
       (Request CreateInvitation rq # Result CreateInvitation (Inr i) # Log m # Delay 5000 # es
          @ [Request CreateCredentialOffer rq', Result CreateCredentialOffer (Inl e)])"
| issuing:
    "loop_events GetConnectionStatus ''trusted'' Finished es \<Longrightarrow>
     surfaced i m \<Longrightarrow>
     loop_events GetCredentialState ''done'' out es' \<Longrightarrow>
     flow_events out
       (Request CreateInvitation rq # Result CreateInvitation (Inr i) # Log m # Delay 5000 # es
          @ Request CreateCredentialOffer rq' # Result CreateCredentialOffer (Inr cid) # es')"

section \<open>Auxiliary facts\<close>

lemmas client_defs =
  send_get_def send_post_def getRequest_def postRequest_def settle_def record_event_def
  read_path_def

lemma urls_differ: "invitation_url \<noteq> offer_url"
  by (simp add: invitation_url_def offer_url_def)

lemma concat_map_singletons: "(\<And>x. x \<in> set xs \<Longrightarrow> g x = [x]) \<Longrightarrow> concat (map g xs) = xs"
  by (induction xs) simp_all

lemma json_stringify_defined: "defined v \<Longrightarrow> json_stringify v = v"
proof (induction v)
  case (JArr xs)
  have "map (\<lambda>x. case x of JUndefined \<Rightarrow> JNull | _ \<Rightarrow> json_stringify x) xs = xs"
  proof (rule map_idI)
    fix x assume "x \<in> set xs"
    with JArr have e: "json_stringify x = x" and d: "defined x" by auto
    from e d show "(case x of JUndefined \<Rightarrow> JNull | _ \<Rightarrow> json_stringify x) = x"
      by (cases x) (auto simp del: json_stringify.simps)
  qed
  then show ?case by simp
next
  case (JObj kvs)
  have "concat (map (\<lambda>(k, v). case v of JUndefined \<Rightarrow> [] | _ \<Rightarrow> [(k, json_stringify v)]) kvs) = kvs"
  proof (rule concat_map_singletons)
    fix x assume x: "x \<in> set kvs"
    obtain k v where kv: "x = (k, v)" by (cases x)
    with x JObj.prems have d: "defined v" by auto
    from x kv have "v \<in> Basic_BNFs.snds x" by simp
    with JObj.IH x d have e: "json_stringify v = v" by blast
    from e d kv show "(case x of (k, v) \<Rightarrow> case v of JUndefined \<Rightarrow> [] | _ \<Rightarrow> [(k, json_stringify v)]) = [x]"
      by (cases v) (auto simp del: json_stringify.simps)
  qed
  then show ?case by simp
qed simp_all

lemma post_body_default [simp]: "post_body JUndefined = JObj []"
  by (simp add: post_body_def)

lemma post_body_offer [simp]:
  "post_body (offer_body c a d) = json_stringify (offer_body c a d)"
  by (simp add: post_body_def offer_body_def)

lemma defined_offer_body:
  "defined c \<Longrightarrow> defined a \<Longrightarrow> json_stringify (offer_body c a d) = offer_body c a d"
  by (rule json_stringify_defined) (simp add: offer_body_def)

lemma defined_attributes: "defined attributes"
  by (simp add: attributes_def attribute_def)


lemma getConnectionStatus_history:
  assumes "getConnectionStatus fetch cid url s = (r, s1)"
  shows "(history s1 = history s @ [Result GetConnectionStatus r] \<and> (\<exists>e. r = Inl e))
       \<or> (\<exists>rq. history s1 = history s @ [Request GetConnectionStatus rq, Result GetConnectionStatus r])"
  using assms
  by (auto simp add: getConnectionStatus_def client_defs split: sum.splits prod.splits)

lemma getCredentialState_history:
  assumes "getCredentialState fetch cid url s = (r, s1)"
  shows "(history s1 = history s @ [Result GetCredentialState r] \<and> (\<exists>e. r = Inl e))
       \<or> (\<exists>rq. history s1 = history s @ [Request GetCredentialState rq, Result GetCredentialState r])"
  using assms
  by (auto simp add: getCredentialState_def client_defs split: sum.splits prod.splits)

lemma connection_loop_events:
  "connection_loop n fetch cid s = (out, s') \<Longrightarrow>
   \<exists>es. history s' = history s @ es \<and> loop_events GetConnectionStatus ''trusted'' out es"
proof (induction n arbitrary: s)
  case 0
  then show ?case by (auto intro: loop_events.intros)
next
  case (Suc n)
  obtain r s1 where p: "getConnectionStatus fetch cid connection_url (wait 2500 s) = (r, s1)"
    by (cases "getConnectionStatus fetch cid connection_url (wait 2500 s)")
  note h = getConnectionStatus_history [OF p]
  have w: "history (wait 2500 s) = history s @ [Delay 2500]"
    by (simp add: wait_def record_event_def)
  show ?case
  proof (cases r)
    case (Inl e)
    with Suc.prems p h w show ?thesis
      by (auto intro: loop_events.intros)
  next
    case (Inr v)
    from Inr h obtain rq where
      h1: "history s1 = history s @ [Delay 2500, Request GetConnectionStatus rq, Result GetConnectionStatus (Inr v)]"
      using w by auto
    have l: "history (console_log v s1) = history s @ [Delay 2500, Request GetConnectionStatus rq, Result GetConnectionStatus (Inr v), Log v]"
      using h1 by (simp add: console_log_def record_event_def)
    show ?thesis
    proof (cases "js_loose_eq v ''trusted''")
      case (Inl e)
      with Suc.prems p Inr l show ?thesis
        by (auto intro: loop_events.intros)
    next
      case b: (Inr b)
      show ?thesis
      proof (cases b)
        case True
        with Suc.prems p Inr l b show ?thesis
          by (auto intro: loop_events.intros)
      next
        case False
        with Suc.prems p Inr b have "connection_loop n fetch cid (console_log v s1) = (out, s')"
          by simp
        from Suc.IH [OF this] obtain es where
          "history s' = history (console_log v s1) @ es" "loop_events GetConnectionStatus ''trusted'' out es"
          by blast
        with l b False show ?thesis
          by (auto intro: loop_events.again)
      qed
    qed
  qed
qed

lemma credential_loop_events:
  "credential_loop n fetch cid s = (out, s') \<Longrightarrow>
   \<exists>es. history s' = history s @ es \<and> loop_events GetCredentialState ''done'' out es"
proof (induction n arbitrary: s)
  case 0
  then show ?case by (auto intro: loop_events.intros)
next
  case (Suc n)
  obtain r s1 where p: "getCredentialState fetch cid credential_url (wait 2500 s) = (r, s1)"
    by (cases "getCredentialState fetch cid credential_url (wait 2500 s)")
  note h = getCredentialState_history [OF p]
  have w: "history (wait 2500 s) = history s @ [Delay 2500]"
    by (simp add: wait_def record_event_def)
  show ?case
  proof (cases r)
    case (Inl e)
    with Suc.prems p h w show ?thesis
      by (auto intro: loop_events.intros)
  next
    case (Inr v)
    from Inr h obtain rq where
      h1: "history s1 = history s @ [Delay 2500, Request GetCredentialState rq, Result GetCredentialState (Inr v)]"
      using w by auto
    have l: "history (console_log v s1) = history s @ [Delay 2500, Request GetCredentialState rq, Result GetCredentialState (Inr v), Log v]"
      using h1 by (simp add: console_log_def record_event_def)
    show ?thesis
    proof (cases "js_loose_eq v ''done''")
      case (Inl e)
      with Suc.prems p Inr l show ?thesis
        by (auto intro: loop_events.intros)
    next
      case b: (Inr b)
      show ?thesis
      proof (cases b)
        case True
        with Suc.prems p Inr l b show ?thesis
          by (auto intro: loop_events.intros)
      next
        case False
        with Suc.prems p Inr b have "credential_loop n fetch cid (console_log v s1) = (out, s')"
          by simp
        from Suc.IH [OF this] obtain es where
          "history s' = history (console_log v s1) @ es" "loop_events GetCredentialState ''done'' out es"
          by blast
        with l b False show ?thesis
          by (auto intro: loop_events.again)
      qed
    qed
  qed
qed

lemma loop_events_kinds:
  "loop_events op t out es \<Longrightarrow> e \<in> set es \<Longrightarrow>
     e = Delay 2500 \<or> (\<exists>rq. e = Request op rq) \<or> (\<exists>r. e = Result op r) \<or> (\<exists>v. e = Log v)"
  by (induction rule: loop_events.induct) auto

lemma loop_events_delays: "loop_events op t out es \<Longrightarrow> delays es = polls_of op es"
  by (induction rule: loop_events.induct) (simp_all add: delays_def polls_of_def)

lemma loop_events_request:
  "loop_events op t out es \<Longrightarrow> es = pre @ Request op' rq # post \<Longrightarrow>
     \<exists>pre'. pre = pre' @ [Delay 2500]"
proof (induction arbitrary: pre rule: loop_events.induct)
  case (again v out es rq0)
  then show ?case
    by (auto simp add: Cons_eq_append_conv)
qed (auto simp add: Cons_eq_append_conv)

lemma loop_events_failure:
  "loop_events op t out es \<Longrightarrow> es = pre @ Result op' (Inl e) # post \<Longrightarrow>
     post = [] \<and> out = Threw e"
  by (induction arbitrary: pre rule: loop_events.induct) (auto simp add: Cons_eq_append_conv)

lemma loop_events_finished:
  "loop_events op t out es \<Longrightarrow> out = Finished \<Longrightarrow>
     \<exists>pre rq v. es = pre @ [Delay 2500, Request op rq, Result op (Inr v), Log v]
        \<and> js_loose_eq v t = Inr True"
proof (induction rule: loop_events.induct)
  case (leave v rq)
  then show ?case by blast
next
  case (again v out es rq)
  then obtain pre rq' v' where
    "es = pre @ [Delay 2500, Request op rq', Result op (Inr v'), Log v']" "js_loose_eq v' t = Inr True"
    by blast
  then have "Delay 2500 # Request op rq # Result op (Inr v) # Log v # es =
      (Delay 2500 # Request op rq # Result op (Inr v) # Log v # pre) @ [Delay 2500, Request op rq', Result op (Inr v'), Log v']
      \<and> js_loose_eq v' t = Inr True"
    by simp
  then show ?case by blast
qed simp_all

lemma createInvitation_history:
  "createInvitation fetch url s = (r, s1) \<Longrightarrow>
     history s1 = history s @
       [Request CreateInvitation (POST url (JObj [])),
        Result CreateInvitation (case r of Inl e \<Rightarrow> Inl e | Inr i \<Rightarrow> Inr (invitation_value i))]"
  by (auto simp add: createInvitation_def client_defs split: prod.splits sum.splits)

lemma createCredentialOffer_history:
  "createCredentialOffer fetch cid attrs cdid url s = (r, s1) \<Longrightarrow>
     history s1 = history s @
       [Request CreateCredentialOffer (POST url (json_stringify (offer_body cid attrs cdid))),
        Result CreateCredentialOffer r]"
  by (auto simp add: createCredentialOffer_def client_defs split: prod.splits)

lemma tests_events:
  assumes "tests fuel fetch s = (out, s')"
  shows "\<exists>es. history s' = history s @ es \<and> flow_events out es"
proof -
  obtain r s1 where i: "createInvitation fetch invitation_url s = (r, s1)"
    by (cases "createInvitation fetch invitation_url s")
  note h1 = createInvitation_history [OF i]
  show ?thesis
  proof (cases r)
    case (Inl e)
    with assms i h1 show ?thesis
      by (auto simp add: tests_def intro: flow_events.intros)
  next
    case (Inr iv)
    show ?thesis
    proof (cases "js_to_string (invitationUrl iv)")
      case (Inl e)
      with assms i Inr have "out = Threw e" "s' = s1"
        by (auto simp add: tests_def)
      with h1 Inr show ?thesis
        by (auto intro: flow_events.intros)
    next
      case link: (Inr link)
      define s2 where "s2 = wait 5000 (console_log (invitation_message link) s1)"
      have sf: "surfaced (invitation_value iv) (invitation_message link)"
        using link by (simp add: surfaced_def invitation_value_def)
      have h2: "history s2 = history s @ [Request CreateInvitation (POST invitation_url (JObj [])),
          Result CreateInvitation (Inr (invitation_value iv)), Log (invitation_message link),
          Delay 5000]"
        using h1 Inr by (simp add: s2_def wait_def console_log_def record_event_def)
      obtain out1 s3 where l: "connection_loop fuel fetch (connectionId iv) s2 = (out1, s3)"
        by (cases "connection_loop fuel fetch (connectionId iv) s2")
      from connection_loop_events [OF l] obtain es where
        es: "history s3 = history s2 @ es" "loop_events GetConnectionStatus ''trusted'' out1 es"
        by blast
      show ?thesis
      proof (cases "out1 = Finished")
        case False
        with assms i Inr link l have "out = out1" "s' = s3"
          by (auto simp add: tests_def s2_def split: outcome.splits)
        with False es h2 sf show ?thesis
          by (auto intro: flow_events.connecting)
      next
        case True
        obtain r2 s4 where
          o: "createCredentialOffer fetch (connectionId iv) attributes credential_definition_id
                offer_url s3 = (r2, s4)"
          by (cases "createCredentialOffer fetch (connectionId iv) attributes
                credential_definition_id offer_url s3")
        note h3 = createCredentialOffer_history [OF o]
        show ?thesis
        proof (cases r2)
          case (Inl e)
          with assms i Inr link l True o have "out = Threw e" "s' = s4"
            by (auto simp add: tests_def s2_def)
          with es h2 h3 True Inl sf show ?thesis
            by (auto intro: flow_events.offer_failed)
        next
          case cid: (Inr cid)
          with assms i Inr link l True o have c: "credential_loop fuel fetch cid s4 = (out, s')"
            by (auto simp add: tests_def s2_def)
          from credential_loop_events [OF c] obtain es' where
            "history s' = history s4 @ es'" "loop_events GetCredentialState ''done'' out es'"
            by blast
          with es h2 h3 True cid sf show ?thesis
            by (auto intro: flow_events.issuing)
        qed
      qed
    qed
  qed
qed

lemma append_split:
  "xs @ ys = pre @ x # post \<Longrightarrow>
     (\<exists>m. xs = pre @ x # m \<and> post = m @ ys) \<or> (\<exists>m. pre = xs @ m \<and> ys = m @ x # post)"
  by (auto simp add: append_eq_append_conv2 append_eq_Cons_conv Cons_eq_append_conv)

lemma append_split3:
  assumes "a @ b @ c = pre @ x # post"
  shows "(\<exists>m. a = pre @ x # m \<and> post = m @ b @ c)
       \<or> (\<exists>l m. b = l @ x # m \<and> pre = a @ l \<and> post = m @ c)
       \<or> (\<exists>l. c = l @ x # post \<and> pre = a @ b @ l)"
proof -
  from append_split [OF assms] show ?thesis
  proof
    assume "\<exists>m. a = pre @ x # m \<and> post = m @ b @ c"
    then show ?thesis by blast
  next
    assume "\<exists>m. pre = a @ m \<and> b @ c = m @ x # post"
    then obtain m where m: "pre = a @ m" "b @ c = m @ x # post" by blast
    from append_split [OF m(2)] m(1) show ?thesis by auto
  qed
qed

lemma loop_events_settled:
  "loop_events op t out es \<Longrightarrow> es = pre @ Request op' rq # post \<Longrightarrow>
     \<exists>r post'. post = Result op' r # post'"
  by (induction arbitrary: pre rule: loop_events.induct) (auto simp add: Cons_eq_append_conv)

lemma loop_events_first_request:
  "loop_events op t out es \<Longrightarrow> es = pre @ Request op rq # post \<Longrightarrow>
     requests_of op pre = 0 \<Longrightarrow> pre = [Delay 2500]"
  by (induction arbitrary: pre rule: loop_events.induct)
     (auto simp add: Cons_eq_append_conv requests_of_def)

lemma loop_events_request_op:
  "loop_events op t out es \<Longrightarrow> es = pre @ Request op' rq # post \<Longrightarrow> op' = op"
  using loop_events_kinds [of op t out es "Request op' rq"] by auto

lemma loop_events_result_op:
  "loop_events op t out es \<Longrightarrow> es = pre @ Result op' r # post \<Longrightarrow> op' = op"
  using loop_events_kinds [of op t out es "Result op' r"] by auto

lemma loop_events_delay:
  "loop_events op t out es \<Longrightarrow> e \<in> set es \<Longrightarrow> is_delay e \<Longrightarrow> e = Delay 2500"
  using loop_events_kinds [of op t out es e] by auto

lemma loop_events_accepted:
  "loop_events op t Finished es \<Longrightarrow>
     \<exists>v. Result op (Inr v) \<in> set es \<and> js_loose_eq v t = Inr True"
  using loop_events_finished [of op t Finished es] by auto

lemma flow_events_failure:
  assumes "flow_events out es" and "es = pre @ Result op (Inl e) # post"
  shows "post = [] \<and> out = Threw e"
  using assms(1)
proof (cases rule: flow_events.cases)
  case (invitation_failed e0 rq0)
  with assms(2) show ?thesis by (auto simp add: Cons_eq_append_conv )
next
  case (message_failed e0 rq0 iv)
  with assms(2) show ?thesis by (auto simp add: Cons_eq_append_conv )
next
  case (connecting es1 iv m rq0)
  with assms(2) have
    "[Request CreateInvitation rq0, Result CreateInvitation (Inr iv), Log m, Delay 5000]
       @ es1 @ [] = pre @ Result op (Inl e) # post"
    by simp
  from append_split3 [OF this] connecting(2) show ?thesis
    by (auto simp add: Cons_eq_append_conv  dest: loop_events_failure)
next
  case (offer_failed es1 iv m e0 rq0 rq')
  with assms(2) have
    "[Request CreateInvitation rq0, Result CreateInvitation (Inr iv), Log m, Delay 5000]
       @ es1 @ [Request CreateCredentialOffer rq', Result CreateCredentialOffer (Inl e0)]
     = pre @ Result op (Inl e) # post"
    by simp
  from append_split3 [OF this] offer_failed(1,3) show ?thesis
    by (auto simp add: Cons_eq_append_conv  dest: loop_events_failure)
next
  case (issuing es1 iv m es2 rq0 rq' cid)
  with assms(2) have
    "[Request CreateInvitation rq0, Result CreateInvitation (Inr iv), Log m, Delay 5000]
       @ es1 @ ([Request CreateCredentialOffer rq', Result CreateCredentialOffer (Inr cid)] @ es2)
     = pre @ Result op (Inl e) # post"
    by simp
  from append_split3 [OF this] issuing(2,4) show ?thesis
    by (auto simp add: Cons_eq_append_conv  dest: loop_events_failure)
qed

lemma flow_events_settled:
  assumes "flow_events out es" and "es = pre @ Request op rq # post"
  shows "\<exists>r post'. post = Result op r # post'"
  using assms(1)
proof (cases rule: flow_events.cases)
  case (invitation_failed e0 rq0)
  with assms(2) show ?thesis by (auto simp add: Cons_eq_append_conv )
next
  case (message_failed e0 rq0 iv)
  with assms(2) show ?thesis by (auto simp add: Cons_eq_append_conv )
next
  case (connecting es1 iv m rq0)
  with assms(2) have
    "[Request CreateInvitation rq0, Result CreateInvitation (Inr iv), Log m, Delay 5000]
       @ es1 @ [] = pre @ Request op rq # post"
    by simp
  from append_split3 [OF this] connecting(2) show ?thesis
    by (auto simp add: Cons_eq_append_conv  dest: loop_events_settled)
next
  case (offer_failed es1 iv m e0 rq0 rq')
  with assms(2) have
    "[Request CreateInvitation rq0, Result CreateInvitation (Inr iv), Log m, Delay 5000]
       @ es1 @ [Request CreateCredentialOffer rq', Result CreateCredentialOffer (Inl e0)]
     = pre @ Request op rq # post"
    by simp
  from append_split3 [OF this] offer_failed(1,3) show ?thesis
    by (auto simp add: Cons_eq_append_conv  dest: loop_events_settled)
next
  case (issuing es1 iv m es2 rq0 rq' cid)
  with assms(2) have
    "[Request CreateInvitation rq0, Result CreateInvitation (Inr iv), Log m, Delay 5000]
       @ es1 @ ([Request CreateCredentialOffer rq', Result CreateCredentialOffer (Inr cid)] @ es2)
     = pre @ Request op rq # post"
    by simp
  from append_split3 [OF this] issuing(2,4) show ?thesis
    by (auto simp add: Cons_eq_append_conv  dest: loop_events_settled)
qed

lemma flow_events_offer:
  assumes "flow_events out es" and "es = pre @ Request CreateCredentialOffer rq # post"
  shows "\<exists>v. Result GetConnectionStatus (Inr v) \<in> set pre \<and> js_loose_eq v ''trusted'' = Inr True"
  using assms(1)
proof (cases rule: flow_events.cases)
  case (invitation_failed e0 rq0)
  with assms(2) show ?thesis by (auto simp add: Cons_eq_append_conv )
next
  case (message_failed e0 rq0 iv)
  with assms(2) show ?thesis by (auto simp add: Cons_eq_append_conv )
next
  case (connecting es1 iv m rq0)
  with assms(2) have
    "[Request CreateInvitation rq0, Result CreateInvitation (Inr iv), Log m, Delay 5000]
       @ es1 @ [] = pre @ Request CreateCredentialOffer rq # post"
    by simp
  from append_split3 [OF this] connecting(2) show ?thesis
    by (auto simp add: Cons_eq_append_conv  dest: loop_events_request_op loop_events_accepted)
next
  case (offer_failed es1 iv m e0 rq0 rq')
  with assms(2) have
    "[Request CreateInvitation rq0, Result CreateInvitation (Inr iv), Log m, Delay 5000]
       @ es1 @ [Request CreateCredentialOffer rq', Result CreateCredentialOffer (Inl e0)]
     = pre @ Request CreateCredentialOffer rq # post"
    by simp
  from append_split3 [OF this] offer_failed(1,3) show ?thesis
    by (auto simp add: Cons_eq_append_conv  dest: loop_events_request_op loop_events_accepted)
next
  case (issuing es1 iv m es2 rq0 rq' cid)
  with assms(2) have
    "[Request CreateInvitation rq0, Result CreateInvitation (Inr iv), Log m, Delay 5000]
       @ es1 @ ([Request CreateCredentialOffer rq', Result CreateCredentialOffer (Inr cid)] @ es2)
     = pre @ Request CreateCredentialOffer rq # post"
    by simp
  from append_split3 [OF this] issuing(2,4) show ?thesis
    by (auto simp add: Cons_eq_append_conv  dest: loop_events_request_op loop_events_accepted)
qed

lemma flow_events_credential:
  assumes "flow_events out es" and "es = pre @ Request GetCredentialState rq # post"
  shows "\<exists>cid. Result CreateCredentialOffer (Inr cid) \<in> set pre"
  using assms(1)
proof (cases rule: flow_events.cases)
  case (invitation_failed e0 rq0)
  with assms(2) show ?thesis by (auto simp add: Cons_eq_append_conv )
next
  case (message_failed e0 rq0 iv)
  with assms(2) show ?thesis by (auto simp add: Cons_eq_append_conv )
next
  case (connecting es1 iv m rq0)
  with assms(2) have
    "[Request CreateInvitation rq0, Result CreateInvitation (Inr iv), Log m, Delay 5000]
       @ es1 @ [] = pre @ Request GetCredentialState rq # post"
    by simp
  from append_split3 [OF this] connecting(2) show ?thesis
    by (auto simp add: Cons_eq_append_conv  dest: loop_events_request_op)
next
  case (offer_failed es1 iv m e0 rq0 rq')
  with assms(2) have
    "[Request CreateInvitation rq0, Result CreateInvitation (Inr iv), Log m, Delay 5000]
       @ es1 @ [Request CreateCredentialOffer rq', Result CreateCredentialOffer (Inl e0)]
     = pre @ Request GetCredentialState rq # post"
    by simp
  from append_split3 [OF this] offer_failed(1,3) show ?thesis
    by (auto simp add: Cons_eq_append_conv  dest: loop_events_request_op)
next
  case (issuing es1 iv m es2 rq0 rq' cid)
  with assms(2) have
    "[Request CreateInvitation rq0, Result CreateInvitation (Inr iv), Log m, Delay 5000]
       @ es1 @ ([Request CreateCredentialOffer rq', Result CreateCredentialOffer (Inr cid)] @ es2)
     = pre @ Request GetCredentialState rq # post"
    by simp
  from append_split3 [OF this] issuing(2,4) show ?thesis
    by (auto simp add: Cons_eq_append_conv  dest: loop_events_request_op)
qed

lemma flow_events_poll_delay:
  assumes "flow_events out es" and "es = pre @ Request op rq # post"
    and "op = GetConnectionStatus \<or> op = GetCredentialState"
  shows "\<exists>pre'. pre = pre' @ [Delay 2500]"
  using assms(1)
proof (cases rule: flow_events.cases)
  case (invitation_failed e0 rq0)
  with assms(2) assms(3) show ?thesis by (auto simp add: Cons_eq_append_conv )
next
  case (message_failed e0 rq0 iv)
  with assms(2) assms(3) show ?thesis by (auto simp add: Cons_eq_append_conv )
next
  case (connecting es1 iv m rq0)
  with assms(2) have
    "[Request CreateInvitation rq0, Result CreateInvitation (Inr iv), Log m, Delay 5000]
       @ es1 @ [] = pre @ Request op rq # post"
    by simp
  from append_split3 [OF this] connecting(2) assms(3) show ?thesis
    by (auto simp add: Cons_eq_append_conv  dest: loop_events_request)
next
  case (offer_failed es1 iv m e0 rq0 rq')
  with assms(2) have
    "[Request CreateInvitation rq0, Result CreateInvitation (Inr iv), Log m, Delay 5000]
       @ es1 @ [Request CreateCredentialOffer rq', Result CreateCredentialOffer (Inl e0)]
     = pre @ Request op rq # post"
    by simp
  from append_split3 [OF this] offer_failed(1,3) assms(3) show ?thesis
    by (auto simp add: Cons_eq_append_conv  dest: loop_events_request)
next
  case (issuing es1 iv m es2 rq0 rq' cid)
  with assms(2) have
    "[Request CreateInvitation rq0, Result CreateInvitation (Inr iv), Log m, Delay 5000]
       @ es1 @ ([Request CreateCredentialOffer rq', Result CreateCredentialOffer (Inr cid)] @ es2)
     = pre @ Request op rq # post"
    by simp
  from append_split3 [OF this] issuing(2,4) assms(3) show ?thesis
    by (auto simp add: Cons_eq_append_conv  dest: loop_events_request)
qed

lemma flow_events_first_poll:
  assumes "flow_events out es" and "es = pre @ Request GetConnectionStatus rq # post"
    and "requests_of GetConnectionStatus pre = 0"
  shows "\<exists>pre'. pre = pre' @ [Delay 5000, Delay 2500]"
  using assms(1)
proof (cases rule: flow_events.cases)
  case (invitation_failed e0 rq0)
  with assms(2) assms(3) show ?thesis by (auto simp add: Cons_eq_append_conv requests_of_def)
next
  case (message_failed e0 rq0 iv)
  with assms(2) assms(3) show ?thesis by (auto simp add: Cons_eq_append_conv requests_of_def)
next
  case (connecting es1 iv m rq0)
  with assms(2) have
    "[Request CreateInvitation rq0, Result CreateInvitation (Inr iv), Log m, Delay 5000]
       @ es1 @ [] = pre @ Request GetConnectionStatus rq # post"
    by simp
  from append_split3 [OF this] connecting(2) assms(3) show ?thesis
    by (auto simp add: Cons_eq_append_conv requests_of_def dest: loop_events_request_op loop_events_first_request)
next
  case (offer_failed es1 iv m e0 rq0 rq')
  with assms(2) have
    "[Request CreateInvitation rq0, Result CreateInvitation (Inr iv), Log m, Delay 5000]
       @ es1 @ [Request CreateCredentialOffer rq', Result CreateCredentialOffer (Inl e0)]
     = pre @ Request GetConnectionStatus rq # post"
    by simp
  from append_split3 [OF this] offer_failed(1,3) assms(3) show ?thesis
    by (auto simp add: Cons_eq_append_conv requests_of_def dest: loop_events_request_op loop_events_first_request)
next
  case (issuing es1 iv m es2 rq0 rq' cid)
  with assms(2) have
    "[Request CreateInvitation rq0, Result CreateInvitation (Inr iv), Log m, Delay 5000]
       @ es1 @ ([Request CreateCredentialOffer rq', Result CreateCredentialOffer (Inr cid)] @ es2)
     = pre @ Request GetConnectionStatus rq # post"
    by simp
  from append_split3 [OF this] issuing(2,4) assms(3) show ?thesis
    by (auto simp add: Cons_eq_append_conv requests_of_def dest: loop_events_request_op loop_events_first_request)
qed

lemma not_connection_credential: "\<not> prefix connection_url (credential_url @ c)"
  by (simp add: connection_url_def credential_url_def)

lemma scripted_invitation [simp]:
  "scripted m (POST invitation_url b) = (Inr (invitation_response m), m)"
  by simp

lemma scripted_offer [simp]:
  "scripted m (POST offer_url b) = (Inr (offer_response m), m)"
  by (simp add: urls_differ [symmetric])

lemma scripted_connection [simp]:
  "scripted m (GET (connection_url @ c)) =
     (case connection_statuses m of
        [] \<Rightarrow> (Inl NetworkError, m)
      | st # rest \<Rightarrow> (Inr (status_envelope st), m\<lparr>connection_statuses := rest\<rparr>))"
  by simp

lemma scripted_credential [simp]:
  "scripted m (GET (credential_url @ c)) =
     (case credential_states m of
        [] \<Rightarrow> (Inl NetworkError, m)
      | st # rest \<Rightarrow> (Inr (state_envelope st), m\<lparr>credential_states := rest\<rparr>))"
  by (simp add: not_connection_credential)

declare scripted.simps [simp del]

lemma connection_poll_scripted:
  "connection_statuses (world s) = st # rest \<Longrightarrow>
   getConnectionStatus scripted (JStr c) connection_url s =
     (Inr (JStr st),
      \<lparr>world = (world s)\<lparr>connection_statuses := rest\<rparr>,
       history = history s @
         [Request GetConnectionStatus (GET (connection_url @ c)),
          Result GetConnectionStatus (Inr (JStr st))]\<rparr>)"
  by (simp add: getConnectionStatus_def client_defs status_envelope_def)

lemma credential_poll_scripted:
  "credential_states (world s) = st # rest \<Longrightarrow>
   getCredentialState scripted (JStr c) credential_url s =
     (Inr (JStr st),
      \<lparr>world = (world s)\<lparr>credential_states := rest\<rparr>,
       history = history s @
         [Request GetCredentialState (GET (credential_url @ c)),
          Result GetCredentialState (Inr (JStr st))]\<rparr>)"
  by (simp add: getCredentialState_def client_defs state_envelope_def)

lemma connection_loop_scripted:
  "''trusted'' \<notin> set xs \<Longrightarrow> connection_statuses (world s) = xs @ ''trusted'' # rest \<Longrightarrow>
   connection_loop (length xs + 1 + k) scripted (JStr c) s =
     (Finished,
      \<lparr>world = (world s)\<lparr>connection_statuses := rest\<rparr>,
       history = history s @
         concat (map (poll_round GetConnectionStatus (connection_url @ c)) (xs @ [''trusted'']))\<rparr>)"
proof (induction xs arbitrary: s)
  case Nil
  then show ?case
    by (simp add: connection_poll_scripted wait_def console_log_def record_event_def
          poll_round_def)
next
  case (Cons x xs)
  let ?s1 = "\<lparr>world = (world s)\<lparr>connection_statuses := xs @ ''trusted'' # rest\<rparr>,
       history = history s @ poll_round GetConnectionStatus (connection_url @ c) x\<rparr>"
  from Cons.prems have x: "x \<noteq> ''trusted''" "''trusted'' \<notin> set xs" by auto
  have step: "connection_loop (length (x # xs) + 1 + k) scripted (JStr c) s =
      connection_loop (length xs + 1 + k) scripted (JStr c) ?s1"
    using Cons.prems(2) x(1)
    by (simp add: connection_poll_scripted wait_def console_log_def record_event_def
          poll_round_def)
  have "connection_statuses (world ?s1) = xs @ ''trusted'' # rest" by simp
  from Cons.IH [OF x(2) this] step show ?case by simp
qed

lemma credential_loop_scripted:
  "''done'' \<notin> set xs \<Longrightarrow> credential_states (world s) = xs @ ''done'' # rest \<Longrightarrow>
   credential_loop (length xs + 1 + k) scripted (JStr c) s =
     (Finished,
      \<lparr>world = (world s)\<lparr>credential_states := rest\<rparr>,
       history = history s @
         concat (map (poll_round GetCredentialState (credential_url @ c)) (xs @ [''done'']))\<rparr>)"
proof (induction xs arbitrary: s)
  case Nil
  then show ?case
    by (simp add: credential_poll_scripted wait_def console_log_def record_event_def
          poll_round_def)
next
  case (Cons x xs)
  let ?s1 = "\<lparr>world = (world s)\<lparr>credential_states := xs @ ''done'' # rest\<rparr>,
       history = history s @ poll_round GetCredentialState (credential_url @ c) x\<rparr>"
  from Cons.prems have x: "x \<noteq> ''done''" "''done'' \<notin> set xs" by auto
  have step: "credential_loop (length (x # xs) + 1 + k) scripted (JStr c) s =
      credential_loop (length xs + 1 + k) scripted (JStr c) ?s1"
    using Cons.prems(2) x(1)
    by (simp add: credential_poll_scripted wait_def console_log_def record_event_def
          poll_round_def)
  have "credential_states (world ?s1) = xs @ ''done'' # rest" by simp
  from Cons.IH [OF x(2) this] step show ?case by simp
qed

lemma poll_rounds_requests:
  "requests_of op (concat (map (poll_round op url) xs)) = length xs"
  by (induction xs) (simp_all add: requests_of_def poll_round_def)

lemma poll_rounds_delays: "delays (concat (map (poll_round op url) xs)) = length xs"
  by (induction xs) (simp_all add: delays_def poll_round_def)

lemma requests_of_append: "requests_of op (xs @ ys) = requests_of op xs + requests_of op ys"
  by (simp add: requests_of_def)

lemma delays_append: "delays (xs @ ys) = delays xs + delays ys"
  by (simp add: delays_def)

lemma flow_events_finished:
  assumes "flow_events Finished es"
  shows "\<exists>v. Result GetCredentialState (Inr v) \<in> set es \<and> js_loose_eq v ''done'' = Inr True"
  using assms
proof (cases rule: flow_events.cases)
  case (connecting es1 iv m rq0)
  then show ?thesis by simp
next
  case (issuing es1 iv m es2 rq0 rq' cid)
  from loop_events_accepted [OF issuing(4)] issuing(1) show ?thesis by auto
qed

lemma flow_events_grace:
  assumes "flow_events out es" and "es = pre @ Result CreateInvitation (Inr iv) # Log m # post"
  shows "(\<exists>rq. pre = [Request CreateInvitation rq]) \<and> surfaced iv m
       \<and> (\<exists>rest. post = Delay 5000 # rest \<and> (\<forall>e\<in>set rest. is_delay e \<longrightarrow> e = Delay 2500))"
  using assms(1)
proof (cases rule: flow_events.cases)
  case (invitation_failed e0 rq0)
  with assms(2) show ?thesis by (auto simp add: Cons_eq_append_conv)
next
  case (message_failed e0 rq0 iv0)
  with assms(2) show ?thesis by (auto simp add: Cons_eq_append_conv)
next
  case (connecting es1 iv0 m0 rq0)
  with assms(2) have
    "[Request CreateInvitation rq0, Result CreateInvitation (Inr iv0), Log m0, Delay 5000]
       @ es1 @ [] = pre @ Result CreateInvitation (Inr iv) # Log m # post"
    by simp
  from append_split3 [OF this] connecting(2,4) show ?thesis
    by (auto simp add: Cons_eq_append_conv dest: loop_events_result_op loop_events_delay)
next
  case (offer_failed es1 iv0 m0 e0 rq0 rq')
  with assms(2) have
    "[Request CreateInvitation rq0, Result CreateInvitation (Inr iv0), Log m0, Delay 5000]
       @ es1 @ [Request CreateCredentialOffer rq', Result CreateCredentialOffer (Inl e0)]
     = pre @ Result CreateInvitation (Inr iv) # Log m # post"
    by simp
  from append_split3 [OF this] offer_failed(3,4) show ?thesis
    by (auto simp add: Cons_eq_append_conv dest: loop_events_result_op loop_events_delay)
next
  case (issuing es1 iv0 m0 es2 rq0 rq' cid)
  with assms(2) have
    "[Request CreateInvitation rq0, Result CreateInvitation (Inr iv0), Log m0, Delay 5000]
       @ es1 @ ([Request CreateCredentialOffer rq', Result CreateCredentialOffer (Inr cid)] @ es2)
     = pre @ Result CreateInvitation (Inr iv) # Log m # post"
    by simp
  from append_split3 [OF this] issuing(2,3,4) show ?thesis
    by (auto simp add: Cons_eq_append_conv dest: loop_events_result_op loop_events_delay)
qed

lemma example_offer_body [simp]:
  "json_stringify (offer_body (JStr c) attributes d) = offer_body (JStr c) attributes d"
  by (rule defined_offer_body) (simp_all add: defined_attributes)

lemma createInvitation_example:
  "createInvitation scripted invitation_url \<lparr>world = example_script, history = h\<rparr> =
     (Inr \<lparr>invitationUrl = JStr ''https://wallet.example/inv/abc'',
           connectionId = JStr ''conn-1''\<rparr>,
      \<lparr>world = example_script,
       history = h @
         [Request CreateInvitation (POST invitation_url (JObj [])),
          Result CreateInvitation
            (Inr (JObj [(''invitationUrl'', JStr ''https://wallet.example/inv/abc''),
                        (''connectionId'', JStr ''conn-1'')]))]\<rparr>)"
  by (simp add: createInvitation_def client_defs invitation_of_def invitation_value_def
        example_script_def)

lemma createCredentialOffer_scripted:
  "createCredentialOffer scripted cid attrs cdid offer_url s =
     (read_path (Inr (offer_response (world s))) [''data'', ''id''],
      \<lparr>world = world s,
       history = history s @
         [Request CreateCredentialOffer
            (POST offer_url (json_stringify (offer_body cid attrs cdid))),
          Result CreateCredentialOffer
            (read_path (Inr (offer_response (world s))) [''data'', ''id''])]\<rparr>)"
  by (simp add: createCredentialOffer_def send_post_def postRequest_def settle_def
        record_event_def)

lemma example_run:
  "tests (3 + k) scripted \<lparr>world = example_script, history = []\<rparr> =
     (Finished,
      \<lparr>world = example_script\<lparr>connection_statuses := [], credential_states := []\<rparr>,
       history = example_connecting @ example_offer @ example_issuing\<rparr>)"
proof -
  have f: "length [''pending'', ''pending''] + 1 + k = 3 + k"
    and g: "length [''offer-sent''] + 1 + Suc k = 3 + k"
    by simp_all
  note c = connection_loop_scripted [of "[''pending'', ''pending'']" _ "[]" k "''conn-1''",
        unfolded f]
  note d = credential_loop_scripted [of "[''offer-sent'']" _ "[]" "Suc k" "''cred-1''",
        unfolded g]
  have e: "connection_statuses example_script = [''pending'', ''pending'', ''trusted'']"
    "credential_states example_script = [''offer-sent'', ''done'']"
    "offer_response example_script = JObj [(''data'', JObj [(''id'', JStr ''cred-1'')])]"
    by (simp_all add: example_script_def)
  show ?thesis
    unfolding tests_def
    by (simp add: createInvitation_example wait_def console_log_def record_event_def
          c d e createCredentialOffer_scripted read_path_def
          example_invited_def example_connecting_def example_offer_def example_issuing_def
          del: connection_loop.simps credential_loop.simps)
qed

lemma connection_poll_exhausted:
  "connection_statuses (world s) = [] \<Longrightarrow>
   getConnectionStatus scripted (JStr c) connection_url s =
     (Inl NetworkError,
      \<lparr>world = world s,
       history = history s @
         [Request GetConnectionStatus (GET (connection_url @ c)),
          Result GetConnectionStatus (Inl NetworkError)]\<rparr>)"
  by (simp add: getConnectionStatus_def client_defs)

lemma failing_run:
  "tests (Suc (Suc k)) scripted
      \<lparr>world = example_script\<lparr>connection_statuses := [''pending'']\<rparr>, history = []\<rparr> =
     (Threw NetworkError,
      \<lparr>world = example_script\<lparr>connection_statuses := []\<rparr>, history = example_failing\<rparr>)"
proof -
  have i: "createInvitation scripted invitation_url
      \<lparr>world = example_script\<lparr>connection_statuses := [''pending'']\<rparr>, history = []\<rparr> =
     (Inr \<lparr>invitationUrl = JStr ''https://wallet.example/inv/abc'',
           connectionId = JStr ''conn-1''\<rparr>,
      \<lparr>world = example_script\<lparr>connection_statuses := [''pending'']\<rparr>,
       history =
         [Request CreateInvitation (POST invitation_url (JObj [])),
          Result CreateInvitation
            (Inr (JObj [(''invitationUrl'', JStr ''https://wallet.example/inv/abc''),
                        (''connectionId'', JStr ''conn-1'')]))]\<rparr>)"
    by (simp add: createInvitation_def client_defs invitation_of_def invitation_value_def
        example_script_def)
  show ?thesis
    unfolding tests_def
    by (simp add: i wait_def console_log_def record_event_def
          connection_poll_scripted connection_poll_exhausted
          example_failing_def example_invited_def poll_round_def)
qed

lemma credential_poll_endless:
  "getCredentialState (endless f) (JStr c) credential_url s =
     (Inr (JStr (f (world s))),
      \<lparr>world = Suc (world s),
       history = history s @
         [Request GetCredentialState (GET (credential_url @ c)),
          Result GetCredentialState (Inr (JStr (f (world s))))]\<rparr>)"
  by (simp add: getCredentialState_def client_defs state_envelope_def endless_def)

lemma credential_loop_endless:
  "\<forall>i. f i \<noteq> ''done'' \<Longrightarrow>
   credential_loop n (endless f) (JStr c) s =
     (Running,
      \<lparr>world = world s + n,
       history = history s @
         concat (map (\<lambda>i. poll_round GetCredentialState (credential_url @ c) (f i))
           [world s ..< world s + n])\<rparr>)"
proof (induction n arbitrary: s)
  case 0
  then show ?case by simp
next
  case (Suc n)
  let ?s1 = "\<lparr>world = Suc (world s),
       history = history s @ poll_round GetCredentialState (credential_url @ c) (f (world s))\<rparr>"
  have step: "credential_loop (Suc n) (endless f) (JStr c) s =
      credential_loop n (endless f) (JStr c) ?s1"
    using Suc.prems
    by (simp add: credential_poll_endless wait_def console_log_def record_event_def
          poll_round_def)
  have "[world s ..< world s + Suc n] = world s # [Suc (world s) ..< Suc (world s) + n]"
    by (simp add: upt_rec)
  with Suc.IH [OF Suc.prems, of ?s1] step show ?case by simp
qed

lemma connection_loop_requests:
  "js_to_string cid = Inr c \<Longrightarrow> connection_loop n fetch cid s = (out, s') \<Longrightarrow>
     delays (history s') + requests_of GetConnectionStatus (history s) =
       delays (history s) + requests_of GetConnectionStatus (history s')"
proof (induction n arbitrary: s)
  case 0
  then show ?case by simp
next
  case (Suc n)
  obtain r w where f: "fetch (world s) (GET (connection_url @ c)) = (r, w)"
    by (cases "fetch (world s) (GET (connection_url @ c))")
  let ?h = "history s @ [Delay 2500, Request GetConnectionStatus (GET (connection_url @ c))]"
  show ?case
  proof (cases "read_path r [''data'', ''records'', ''status'']")
    case (Inl e)
    with Suc.prems f show ?thesis
      by (auto simp add: getConnectionStatus_def client_defs wait_def delays_def requests_of_def)
  next
    case (Inr v)
    let ?s1 = "\<lparr>world = w, history = ?h @ [Result GetConnectionStatus (Inr v), Log v]\<rparr>"
    show ?thesis
    proof (cases "js_loose_eq v ''trusted'' = Inr False")
      case True
      with Suc.prems f Inr have "connection_loop n fetch cid ?s1 = (out, s')"
        by (simp add: getConnectionStatus_def client_defs wait_def console_log_def)
      from Suc.IH [OF Suc.prems(1) this] show ?thesis
        by (simp add: delays_def requests_of_def)
    next
      case False
      with Suc.prems f Inr have "s' = ?s1"
        by (auto simp add: getConnectionStatus_def client_defs wait_def console_log_def
              split: sum.splits bool.splits)
      then show ?thesis by (simp add: delays_def requests_of_def)
    qed
  qed
qed

lemma credential_loop_requests:
  "js_to_string cid = Inr c \<Longrightarrow> credential_loop n fetch cid s = (out, s') \<Longrightarrow>
     delays (history s') + requests_of GetCredentialState (history s) =
       delays (history s) + requests_of GetCredentialState (history s')"
proof (induction n arbitrary: s)
  case 0
  then show ?case by simp
next
  case (Suc n)
  obtain r w where f: "fetch (world s) (GET (credential_url @ c)) = (r, w)"
    by (cases "fetch (world s) (GET (credential_url @ c))")
  let ?h = "history s @ [Delay 2500, Request GetCredentialState (GET (credential_url @ c))]"
  show ?case
  proof (cases "read_path r [''data'', ''state'']")
    case (Inl e)
    with Suc.prems f show ?thesis
      by (auto simp add: getCredentialState_def client_defs wait_def delays_def requests_of_def)
  next
    case (Inr v)
    let ?s1 = "\<lparr>world = w, history = ?h @ [Result GetCredentialState (Inr v), Log v]\<rparr>"
    show ?thesis
    proof (cases "js_loose_eq v ''done'' = Inr False")
      case True
      with Suc.prems f Inr have "credential_loop n fetch cid ?s1 = (out, s')"
        by (simp add: getCredentialState_def client_defs wait_def console_log_def)
      from Suc.IH [OF Suc.prems(1) this] show ?thesis
        by (simp add: delays_def requests_of_def)
    next
      case False
      with Suc.prems f Inr have "s' = ?s1"
        by (auto simp add: getCredentialState_def client_defs wait_def console_log_def
              split: sum.splits bool.splits)
      then show ?thesis by (simp add: delays_def requests_of_def)
    qed
  qed
qed

lemma array_answers_invitation:
  "array_answers u (POST invitation_url b) =
     (Inr (JObj [(''data'', JObj [(''invitationUrl'', JStr ''https://wallet.example/inv/abc''),
                                 (''connection'', JObj [(''id'', JStr ''conn-1'')])])]), u)"
  by simp

lemma array_answers_offer:
  "array_answers u (POST offer_url b) = (Inr (JObj [(''data'', JObj [(''id'', JStr ''cred-1'')])]), u)"
  by (simp add: urls_differ [symmetric])

lemma array_answers_connection:
  "array_answers u (GET (connection_url @ c)) =
     (Inr (JObj [(''data'', JObj [(''records'', JObj [(''status'', JArr [JStr ''trusted''])])])]), u)"
  by simp

lemma array_answers_credential:
  "array_answers u (GET (credential_url @ c)) =
     (Inr (JObj [(''data'', JObj [(''state'', JArr [JStr ''done''])])]), u)"
  by (simp add: not_connection_credential)

lemma array_run:
  "tests (Suc k) array_answers \<lparr>world = (), history = []\<rparr> =
     (Finished,
      \<lparr>world = (),
       history = example_invited
         @ [Delay 2500,
            Request GetConnectionStatus (GET (connection_url @ ''conn-1'')),
            Result GetConnectionStatus (Inr (JArr [JStr ''trusted''])),
            Log (JArr [JStr ''trusted''])]
         @ example_offer
         @ [Delay 2500,
            Request GetCredentialState (GET (credential_url @ ''cred-1'')),
            Result GetCredentialState (Inr (JArr [JStr ''done''])),
            Log (JArr [JStr ''done''])]\<rparr>)"
  unfolding tests_def
  by (simp add: createInvitation_def createCredentialOffer_def getConnectionStatus_def
        getCredentialState_def client_defs invitation_of_def invitation_value_def
        wait_def console_log_def
        array_answers_invitation array_answers_offer array_answers_connection
        array_answers_credential example_invited_def example_offer_def
        del: array_answers.simps)

section \<open>The claims\<close>

text \<open>
  Claim C1 as stated fails twice. For \<^verbatim>\<open>[pending, pending, trusted]\<close> the loop performs 3
  polls and 3 delays, not 2: \<^verbatim>\<open>wait(2500)\<close> opens every iteration, the first one too. And for
  \<^verbatim>\<open>[trusted, pending, trusted]\<close>, which also ends in \<^verbatim>\<open>trusted\<close>, it performs 1 poll, not one
  per value: it leaves at the first \<^verbatim>\<open>trusted\<close>.
\<close>

theorem connection_wait_counterexample:
  "fst (connection_loop 3 scripted (JStr ''conn-1'') \<lparr>world = example_script, history = []\<rparr>)
     = Finished
   \<and> requests_of GetConnectionStatus
       (history (snd (connection_loop 3 scripted (JStr ''conn-1'')
          \<lparr>world = example_script, history = []\<rparr>))) = 3
   \<and> delays
       (history (snd (connection_loop 3 scripted (JStr ''conn-1'')
          \<lparr>world = example_script, history = []\<rparr>))) = 3
   \<and> requests_of GetConnectionStatus
       (history (snd (connection_loop 3 scripted (JStr ''conn-1'')
          \<lparr>world = example_script\<lparr>connection_statuses := [''trusted'', ''pending'', ''trusted'']\<rparr>,
           history = []\<rparr>))) = 1"
proof -
  have f: "length [''pending'', ''pending''] + 1 + 0 = (3::nat)" by simp
  have g: "length ([]::string list) + 1 + 2 = (3::nat)" by simp
  have a: "connection_loop 3 scripted (JStr ''conn-1'') \<lparr>world = example_script, history = []\<rparr> =
      (Finished, \<lparr>world = example_script\<lparr>connection_statuses := []\<rparr>,
         history = concat (map (poll_round GetConnectionStatus (connection_url @ ''conn-1''))
             [''pending'', ''pending'', ''trusted''])\<rparr>)"
    using connection_loop_scripted [of "[''pending'', ''pending'']"
        "\<lparr>world = example_script, history = []\<rparr>" "[]" 0 "''conn-1''", unfolded f]
    by (simp add: example_script_def del: connection_loop.simps)
  have b: "connection_loop 3 scripted (JStr ''conn-1'')
      \<lparr>world = example_script\<lparr>connection_statuses := [''trusted'', ''pending'', ''trusted'']\<rparr>,
       history = []\<rparr> =
      (Finished, \<lparr>world = example_script\<lparr>connection_statuses := [''pending'', ''trusted'']\<rparr>,
         history = poll_round GetConnectionStatus (connection_url @ ''conn-1'') ''trusted''\<rparr>)"
    using connection_loop_scripted [of "[]"
        "\<lparr>world = example_script\<lparr>connection_statuses := [''trusted'', ''pending'', ''trusted'']\<rparr>,
          history = []\<rparr>" "[''pending'', ''trusted'']" 2 "''conn-1''", unfolded g]
    by (simp del: connection_loop.simps)
  show ?thesis
    unfolding a b by (simp add: requests_of_def delays_def poll_round_def)
qed

text \<open>
  Claim C1, amended. For every sequence of connection statuses whose only \<^verbatim>\<open>trusted\<close> is its
  last value, the connection-wait loop terminates (for every number of iterations it is
  followed for, from the length of the sequence on), the last status it logs is exactly
  \<^verbatim>\<open>trusted\<close>, and it runs one round per value of the sequence: a 2500 ms delay, then the
  poll, then the console line. So it sends as many requests as the sequence has values
  and waits as many times: one delay before the first poll and one between any two
  consecutive polls.
\<close>

theorem connection_wait_until_trusted:
  assumes "''trusted'' \<notin> set xs" and "connection_statuses (world s) = xs @ [''trusted'']"
  shows "\<exists>s'. connection_loop (length xs + 1 + k) scripted (JStr c) s = (Finished, s')
     \<and> history s' = history s @
           concat (map (poll_round GetConnectionStatus (connection_url @ c)) (xs @ [''trusted'']))
     \<and> last (history s') = Log (JStr ''trusted'')
     \<and> requests_of GetConnectionStatus (history s') =
           requests_of GetConnectionStatus (history s) + length (xs @ [''trusted''])
     \<and> delays (history s') = delays (history s) + length (xs @ [''trusted''])"
proof -
  let ?es = "concat (map (poll_round GetConnectionStatus (connection_url @ c)) (xs @ [''trusted'']))"
  let ?s' = "\<lparr>world = (world s)\<lparr>connection_statuses := []\<rparr>, history = history s @ ?es\<rparr>"
  have run: "connection_loop (length xs + 1 + k) scripted (JStr c) s = (Finished, ?s')"
    by (rule connection_loop_scripted [OF assms])
  have l: "last (history ?s') = Log (JStr ''trusted'')"
    by (simp add: poll_round_def)
  have r: "requests_of GetConnectionStatus (history ?s') =
      requests_of GetConnectionStatus (history s) + length (xs @ [''trusted''])"
    using poll_rounds_requests [of GetConnectionStatus "connection_url @ c" "xs @ [''trusted'']"]
    by (simp add: requests_of_append del: map_append)
  have d: "delays (history ?s') = delays (history s) + length (xs @ [''trusted''])"
    using poll_rounds_delays [of GetConnectionStatus "connection_url @ c" "xs @ [''trusted'']"]
    by (simp add: delays_append del: map_append)
  from run l r d show ?thesis by simp
qed

text \<open>
  Claim C1, amended, at the sequence \<^verbatim>\<open>[pending, pending, trusted]\<close>: 3 polls, 3 delays.
\<close>

theorem connection_wait_until_trusted_witness:
  "\<exists>s'. connection_loop 3 scripted (JStr ''conn-1'') \<lparr>world = example_script, history = []\<rparr>
         = (Finished, s')
     \<and> history s' =
           concat (map (poll_round GetConnectionStatus (connection_url @ ''conn-1''))
             [''pending'', ''pending'', ''trusted''])
     \<and> last (history s') = Log (JStr ''trusted'')
     \<and> requests_of GetConnectionStatus (history s') = 3
     \<and> delays (history s') = 3"
proof -
  have h1: "''trusted'' \<notin> set [''pending'', ''pending'']" by simp
  have h2: "connection_statuses (world \<lparr>world = example_script, history = []\<rparr>) =
      [''pending'', ''pending''] @ [''trusted'']"
    by (simp add: example_script_def)
  have f: "length [''pending'', ''pending''] + 1 + 0 = (3::nat)" by simp
  show ?thesis
    using connection_wait_until_trusted [OF h1 h2, of 0 "''conn-1''", unfolded f]
    by (simp add: requests_of_def delays_def eval_nat_numeral del: connection_loop.simps)
qed

text \<open>
  Claim C2. With the scripted service of the scenario (invitation \<^verbatim>\<open>conn-1\<close>, statuses
  \<^verbatim>\<open>[pending, pending, trusted]\<close>, offer \<^verbatim>\<open>cred-1\<close>, states \<^verbatim>\<open>[offer-sent, done]\<close>), \<^verbatim>\<open>tests\<close>
  runs to its end, for every number of iterations from 3 on that each loop is followed
  for; \<^verbatim>\<open>createCredentialOffer\<close> returns \<^verbatim>\<open>cred-1\<close>; and the requests sent are, in this order
  and with nothing between them but delays, results and console lines: the invitation,
  3 connection-status polls for \<^verbatim>\<open>conn-1\<close>, the offer, 2 credential-state polls for \<^verbatim>\<open>cred-1\<close>.
\<close>

theorem end_to_end_scenario:
  "tests (3 + k) scripted \<lparr>world = example_script, history = []\<rparr> =
     (Finished,
      \<lparr>world = example_script\<lparr>connection_statuses := [], credential_states := []\<rparr>,
       history = example_connecting @ example_offer @ example_issuing\<rparr>)
   \<and> Result CreateCredentialOffer (Inr (JStr ''cred-1''))
       \<in> set (history (snd (tests (3 + k) scripted \<lparr>world = example_script, history = []\<rparr>)))
   \<and> filter is_request (history (snd (tests (3 + k) scripted
         \<lparr>world = example_script, history = []\<rparr>))) =
       [Request CreateInvitation (POST invitation_url (JObj [])),
        Request GetConnectionStatus (GET (connection_url @ ''conn-1'')),
        Request GetConnectionStatus (GET (connection_url @ ''conn-1'')),
        Request GetConnectionStatus (GET (connection_url @ ''conn-1'')),
        Request CreateCredentialOffer
          (POST offer_url (offer_body (JStr ''conn-1'') attributes credential_definition_id)),
        Request GetCredentialState (GET (credential_url @ ''cred-1'')),
        Request GetCredentialState (GET (credential_url @ ''cred-1''))]"
  unfolding example_run
  by (simp add: example_invited_def example_connecting_def example_offer_def
        example_issuing_def poll_round_def)

text \<open>
  Claim C3. For every endless sequence \<open>f\<close> of credential states in which \<^verbatim>\<open>done\<close> never
  occurs (any other strings, error states of the service among them), the
  credential-wait loop does not terminate: however many iterations \<open>n\<close> it is followed
  for, it is still polling, it has sent exactly \<open>n\<close> requests by then, and one iteration
  later it has sent more than \<open>n\<close>.
\<close>

theorem credential_wait_never_ends:
  assumes "\<forall>i. f i \<noteq> ''done''"
  shows "fst (credential_loop n (endless f) (JStr c) \<lparr>world = k, history = h\<rparr>) = Running
       \<and> requests_of GetCredentialState
           (history (snd (credential_loop n (endless f) (JStr c) \<lparr>world = k, history = []\<rparr>))) = n
       \<and> n < requests_of GetCredentialState
           (history (snd (credential_loop (Suc n) (endless f) (JStr c)
              \<lparr>world = k, history = []\<rparr>)))"
proof -
  have r: "requests_of GetCredentialState
      (concat (map (\<lambda>i. poll_round GetCredentialState (credential_url @ c) (f i)) [k ..< k + m])) = m"
    for m
    using poll_rounds_requests [of GetCredentialState "credential_url @ c" "map f [k ..< k + m]"]
    by (simp add: comp_def)
  show ?thesis
    using r [of n] r [of "Suc n"]
    by (simp add: credential_loop_endless [OF assms] del: credential_loop.simps upt_Suc)
qed

text \<open>
  Claim C3 at the sequence that alternates \<^verbatim>\<open>offer-sent\<close> and \<^verbatim>\<open>declined\<close>, followed for 5
  iterations.
\<close>

theorem credential_wait_never_ends_witness:
  "fst (credential_loop 5 (endless (\<lambda>i. if even i then ''offer-sent'' else ''declined''))
          (JStr ''cred-1'') \<lparr>world = 0, history = []\<rparr>) = Running
   \<and> requests_of GetCredentialState
       (history (snd (credential_loop 5
          (endless (\<lambda>i. if even i then ''offer-sent'' else ''declined''))
          (JStr ''cred-1'') \<lparr>world = 0, history = []\<rparr>))) = 5
   \<and> 5 < requests_of GetCredentialState
       (history (snd (credential_loop (Suc 5)
          (endless (\<lambda>i. if even i then ''offer-sent'' else ''declined''))
          (JStr ''cred-1'') \<lparr>world = 0, history = []\<rparr>)))"
proof -
  have h: "\<forall>i::nat. (if even i then ''offer-sent'' else ''declined'') \<noteq> ''done''"
    by simp
  show ?thesis
    by (rule credential_wait_never_ends [OF h])
qed

text \<open>
  Claim C4 says that no offer is requested before a connection-status poll has returned
  exactly \<^verbatim>\<open>trusted\<close>, and that the flow completes only after a credential-state poll has
  returned \<^verbatim>\<open>done\<close>. The loops compare with \<^verbatim>\<open>==\<close>, which converts an array to the string of
  its elements: against a service that reports the status \<^verbatim>\<open>["trusted"]\<close> and the state
  \<^verbatim>\<open>["done"]\<close>, \<^verbatim>\<open>tests\<close> requests the offer and runs to its end, and no poll has returned
  the string \<^verbatim>\<open>trusted\<close> or the string \<^verbatim>\<open>done\<close>.
\<close>

theorem offer_after_array_status_counterexample:
  "fst (tests 1 array_answers \<lparr>world = (), history = []\<rparr>) = Finished
   \<and> Request CreateCredentialOffer
         (POST offer_url (offer_body (JStr ''conn-1'') attributes credential_definition_id))
       \<in> set (history (snd (tests 1 array_answers \<lparr>world = (), history = []\<rparr>)))
   \<and> Result GetConnectionStatus (Inr (JStr ''trusted''))
       \<notin> set (history (snd (tests 1 array_answers \<lparr>world = (), history = []\<rparr>)))
   \<and> Result GetCredentialState (Inr (JStr ''done''))
       \<notin> set (history (snd (tests 1 array_answers \<lparr>world = (), history = []\<rparr>)))"
proof -
  have one: "(1::nat) = Suc 0" by simp
  show ?thesis
    unfolding one array_run
    by (simp add: example_invited_def example_offer_def)
qed

text \<open>
  Claim C4, amended. In every execution of \<^verbatim>\<open>tests\<close>: every \<^verbatim>\<open>createCredentialOffer\<close> request
  comes after a \<^verbatim>\<open>getConnectionStatus\<close> poll that returned a value \<^verbatim>\<open>== 'trusted'\<close> (for a
  string, exactly \<^verbatim>\<open>trusted\<close>); every \<^verbatim>\<open>getCredentialState\<close> request comes after
  \<^verbatim>\<open>createCredentialOffer\<close> has returned; and an execution that ran to its end holds a
  \<^verbatim>\<open>getCredentialState\<close> poll that returned a value \<^verbatim>\<open>== 'done'\<close> (for a string, exactly
  \<^verbatim>\<open>done\<close>).
\<close>

theorem offer_only_after_accepted_status:
  assumes "tests fuel fetch s = (out, s')" and "history s' = history s @ es"
  shows "(\<forall>pre rq post. es = pre @ Request CreateCredentialOffer rq # post \<longrightarrow>
            (\<exists>v. Result GetConnectionStatus (Inr v) \<in> set pre
               \<and> js_loose_eq v ''trusted'' = Inr True
               \<and> (\<forall>x. v = JStr x \<longrightarrow> x = ''trusted'')))
       \<and> (\<forall>pre rq post. es = pre @ Request GetCredentialState rq # post \<longrightarrow>
            (\<exists>cid. Result CreateCredentialOffer (Inr cid) \<in> set pre))
       \<and> (out = Finished \<longrightarrow>
            (\<exists>v. Result GetCredentialState (Inr v) \<in> set es
               \<and> js_loose_eq v ''done'' = Inr True
               \<and> (\<forall>x. v = JStr x \<longrightarrow> x = ''done'')))"
proof -
  from tests_events [OF assms(1)] assms(2) have fl: "flow_events out es" by auto
  have a: "\<exists>v. Result GetConnectionStatus (Inr v) \<in> set pre
               \<and> js_loose_eq v ''trusted'' = Inr True
               \<and> (\<forall>x. v = JStr x \<longrightarrow> x = ''trusted'')"
    if d: "es = pre @ Request CreateCredentialOffer rq # post" for pre rq post
  proof -
    from flow_events_offer [OF fl d] obtain v where
      v: "Result GetConnectionStatus (Inr v) \<in> set pre" "js_loose_eq v ''trusted'' = Inr True"
      by blast
    from v(2) have "\<forall>x. v = JStr x \<longrightarrow> x = ''trusted''" by auto
    with v show ?thesis by blast
  qed
  have b: "\<exists>cid. Result CreateCredentialOffer (Inr cid) \<in> set pre"
    if "es = pre @ Request GetCredentialState rq # post" for pre rq post
    using flow_events_credential [OF fl that] .
  have c: "\<exists>v. Result GetCredentialState (Inr v) \<in> set es
               \<and> js_loose_eq v ''done'' = Inr True
               \<and> (\<forall>x. v = JStr x \<longrightarrow> x = ''done'')" if "out = Finished"
  proof -
    from flow_events_finished fl that obtain v where
      v: "Result GetCredentialState (Inr v) \<in> set es" "js_loose_eq v ''done'' = Inr True"
      by blast
    from v(2) have "\<forall>x. v = JStr x \<longrightarrow> x = ''done''" by auto
    with v show ?thesis by blast
  qed
  from a b c show ?thesis by blast
qed

text \<open>
  Claim C4, amended, at the end-to-end scenario, where the statuses are strings: a poll
  had returned a value \<^verbatim>\<open>== 'trusted'\<close> before the offer request, the offer had returned
  before the first credential-state request, a poll returned a value \<^verbatim>\<open>== 'done'\<close>.
\<close>

theorem offer_only_after_accepted_status_witness:
  "tests 3 scripted \<lparr>world = example_script, history = []\<rparr> =
     (Finished,
      \<lparr>world = example_script\<lparr>connection_statuses := [], credential_states := []\<rparr>,
       history = example_connecting @ example_offer @ example_issuing\<rparr>)
   \<and> (\<exists>v. Result GetConnectionStatus (Inr v) \<in> set example_connecting
         \<and> js_loose_eq v ''trusted'' = Inr True)
   \<and> (\<exists>cid. Result CreateCredentialOffer (Inr cid) \<in> set (example_connecting @ example_offer))
   \<and> (\<exists>v. Result GetCredentialState (Inr v)
           \<in> set (example_connecting @ example_offer @ example_issuing)
         \<and> js_loose_eq v ''done'' = Inr True)"
proof -
  let ?s = "\<lparr>world = example_script, history = []\<rparr>"
  let ?s' = "\<lparr>world = example_script\<lparr>connection_statuses := [], credential_states := []\<rparr>,
       history = example_connecting @ example_offer @ example_issuing\<rparr>"
  let ?es = "example_connecting @ example_offer @ example_issuing"
  have run: "tests 3 scripted ?s = (Finished, ?s')"
    using example_run [of 0] by simp
  have h: "history ?s' = history ?s @ ?es" by simp
  note inst = offer_only_after_accepted_status [OF run h]
  have d1: "?es = example_connecting
      @ Request CreateCredentialOffer
          (POST offer_url (offer_body (JStr ''conn-1'') attributes credential_definition_id))
      # (Result CreateCredentialOffer (Inr (JStr ''cred-1'')) # example_issuing)"
    by (simp add: example_offer_def)
  have d2: "?es = (example_connecting @ example_offer @ [Delay 2500])
      @ Request GetCredentialState (GET (credential_url @ ''cred-1''))
      # ([Result GetCredentialState (Inr (JStr ''offer-sent'')), Log (JStr ''offer-sent'')]
         @ poll_round GetCredentialState (credential_url @ ''cred-1'') ''done'')"
    by (simp add: example_issuing_def poll_round_def)
  from inst d1 have a: "\<exists>v. Result GetConnectionStatus (Inr v) \<in> set example_connecting
         \<and> js_loose_eq v ''trusted'' = Inr True"
    by blast
  from inst d2 have "\<exists>cid. Result CreateCredentialOffer (Inr cid)
      \<in> set (example_connecting @ example_offer @ [Delay 2500])"
    by blast
  then have b: "\<exists>cid. Result CreateCredentialOffer (Inr cid) \<in> set (example_connecting @ example_offer)"
    by auto
  from inst have c: "\<exists>v. Result GetCredentialState (Inr v) \<in> set ?es
         \<and> js_loose_eq v ''done'' = Inr True"
    by blast
  from run a b c show ?thesis by blast
qed



text \<open>
  Claim C6. For every well-formed invitation response (an object whose \<^verbatim>\<open>data\<close> is an object
  with an \<^verbatim>\<open>invitationUrl\<close> and with a \<^verbatim>\<open>connection\<close> object that has an \<^verbatim>\<open>id\<close>),
  \<^verbatim>\<open>createInvitation\<close> returns the invitation whose \<^verbatim>\<open>connectionId\<close> is exactly the response's
  \<^verbatim>\<open>data.connection.id\<close> and whose \<^verbatim>\<open>invitationUrl\<close> is exactly its \<^verbatim>\<open>data.invitationUrl\<close>.
\<close>

theorem createInvitation_extracts:
  assumes "fetch (world s) (POST url (JObj [])) = (Inr (JObj env), w)"
    and "map_of env ''data'' = Some (JObj d)"
    and "map_of d ''invitationUrl'' = Some u"
    and "map_of d ''connection'' = Some (JObj c)"
    and "map_of c ''id'' = Some i"
  shows "fst (createInvitation fetch url s) = Inr \<lparr>invitationUrl = u, connectionId = i\<rparr>"
  using assms by (simp add: createInvitation_def client_defs invitation_of_def)

text \<open>
  Claim C6 at the invitation of the end-to-end scenario.
\<close>

theorem createInvitation_extracts_witness:
  "fst (createInvitation scripted invitation_url \<lparr>world = example_script, history = []\<rparr>) =
     Inr \<lparr>invitationUrl = JStr ''https://wallet.example/inv/abc'',
          connectionId = JStr ''conn-1''\<rparr>"
proof -
  have h1: "scripted (world \<lparr>world = example_script, history = []\<rparr>)
      (POST invitation_url (JObj [])) =
      (Inr (JObj [(''data'', JObj [(''invitationUrl'', JStr ''https://wallet.example/inv/abc''),
                              (''connection'', JObj [(''id'', JStr ''conn-1'')])])]), example_script)"
    by (simp add: example_script_def)
  have h2: "map_of [(''data'', JObj [(''invitationUrl'', JStr ''https://wallet.example/inv/abc''),
                              (''connection'', JObj [(''id'', JStr ''conn-1'')])])] ''data'' =
      Some (JObj [(''invitationUrl'', JStr ''https://wallet.example/inv/abc''),
                              (''connection'', JObj [(''id'', JStr ''conn-1'')])])"
    by simp
  have h3: "map_of [(''invitationUrl'', JStr ''https://wallet.example/inv/abc''),
                    (''connection'', JObj [(''id'', JStr ''conn-1'')])] ''invitationUrl'' =
      Some (JStr ''https://wallet.example/inv/abc'')"
    by simp
  have h4: "map_of [(''invitationUrl'', JStr ''https://wallet.example/inv/abc''),
                    (''connection'', JObj [(''id'', JStr ''conn-1'')])] ''connection'' =
      Some (JObj [(''id'', JStr ''conn-1'')])"
    by simp
  have h5: "map_of [(''id'', JStr ''conn-1'')] ''id'' = Some (JStr ''conn-1'')"
    by simp
  show ?thesis
    by (rule createInvitation_extracts
          [where fetch = scripted and s = "\<lparr>world = example_script, history = []\<rparr>",
           OF h1 h2 h3 h4 h5])
qed

text \<open>
  Claim C7 says that an offer response whose \<^verbatim>\<open>data\<close> object has no \<^verbatim>\<open>id\<close> makes
  \<^verbatim>\<open>createCredentialOffer\<close> fail. It does not: for the response \<^verbatim>\<open>{data: {}}\<close> the operation
  returns \<^verbatim>\<open>undefined\<close>, and \<^verbatim>\<open>tests\<close> goes on to poll the credential \<^verbatim>\<open>undefined\<close> and runs to
  its end.
\<close>

theorem offer_without_id_counterexample:
  "fst (createCredentialOffer scripted (JStr ''conn-1'') attributes credential_definition_id
          offer_url
          \<lparr>world = example_script\<lparr>offer_response := JObj [(''data'', JObj [])]\<rparr>, history = []\<rparr>)
     = Inr JUndefined
   \<and> fst (tests 3 scripted
          \<lparr>world = example_script\<lparr>offer_response := JObj [(''data'', JObj [])]\<rparr>, history = []\<rparr>)
     = Finished
   \<and> Request GetCredentialState (GET (credential_url @ ''undefined''))
       \<in> set (history (snd (tests 3 scripted
            \<lparr>world = example_script\<lparr>offer_response := JObj [(''data'', JObj [])]\<rparr>,
             history = []\<rparr>)))"
proof -
  let ?m = "example_script\<lparr>offer_response := JObj [(''data'', JObj [])]\<rparr>"
  have a: "fst (createCredentialOffer scripted (JStr ''conn-1'') attributes
      credential_definition_id offer_url \<lparr>world = ?m, history = []\<rparr>) = Inr JUndefined"
    by (simp add: createCredentialOffer_scripted read_path_def)
  have f: "length [''pending'', ''pending''] + 1 + 0 = (3::nat)"
    and g: "length [''offer-sent''] + 1 + 1 = (3::nat)"
    by simp_all
  note c = connection_loop_scripted [of "[''pending'', ''pending'']" _ "[]" 0 "''conn-1''",
        unfolded f]
  note d = credential_loop_scripted [of "[''offer-sent'']" _ "[]" 1 "''undefined''",
        unfolded g]
  have i: "createInvitation scripted invitation_url \<lparr>world = ?m, history = []\<rparr> =
     (Inr \<lparr>invitationUrl = JStr ''https://wallet.example/inv/abc'',
           connectionId = JStr ''conn-1''\<rparr>,
      \<lparr>world = ?m,
       history =
         [Request CreateInvitation (POST invitation_url (JObj [])),
          Result CreateInvitation
            (Inr (JObj [(''invitationUrl'', JStr ''https://wallet.example/inv/abc''),
                        (''connectionId'', JStr ''conn-1'')]))]\<rparr>)"
    by (simp add: createInvitation_def client_defs invitation_of_def invitation_value_def
        example_script_def)
  have e: "connection_statuses example_script = [''pending'', ''pending'', ''trusted'']"
    "credential_states example_script = [''offer-sent'', ''done'']"
    by (simp_all add: example_script_def)
  have p: "getCredentialState scripted JUndefined = getCredentialState scripted (JStr ''undefined'')"
    by (simp add: getCredentialState_def fun_eq_iff)
  have u: "credential_loop n scripted JUndefined s = credential_loop n scripted (JStr ''undefined'') s"
    for n and s :: "script state"
    by (induction n arbitrary: s) (simp_all add: p split: prod.splits sum.splits bool.splits)
  have run: "tests 3 scripted \<lparr>world = ?m, history = []\<rparr> =
      (Finished,
       \<lparr>world = ?m\<lparr>connection_statuses := [], credential_states := []\<rparr>,
        history = example_connecting
          @ [Request CreateCredentialOffer
               (POST offer_url (offer_body (JStr ''conn-1'') attributes credential_definition_id)),
             Result CreateCredentialOffer (Inr JUndefined)]
          @ poll_round GetCredentialState (credential_url @ ''undefined'') ''offer-sent''
          @ poll_round GetCredentialState (credential_url @ ''undefined'') ''done''\<rparr>)"
    unfolding tests_def
    by (simp add: i wait_def console_log_def record_event_def
          c d e u createCredentialOffer_scripted read_path_def
          example_invited_def example_connecting_def
          del: connection_loop.simps credential_loop.simps)
  show ?thesis
    unfolding run using a by (simp add: poll_round_def)
qed

text \<open>
  Claim C7, amended. When the response's \<^verbatim>\<open>data\<close> is an object without \<^verbatim>\<open>id\<close>,
  \<^verbatim>\<open>createCredentialOffer\<close> does not fail: it returns \<^verbatim>\<open>undefined\<close> as the credential id. It
  throws (a TypeError) when \<^verbatim>\<open>data\<close> itself is missing or \<^verbatim>\<open>null\<close>.
\<close>

theorem createCredentialOffer_missing_id:
  assumes "fetch (world s)
             (POST url (json_stringify (offer_body connection_id attrs credentialDefinitionId))) =
             (Inr (JObj env), w)"
  shows "(\<forall>d. map_of env ''data'' = Some (JObj d) \<longrightarrow> map_of d ''id'' = None \<longrightarrow>
            fst (createCredentialOffer fetch connection_id attrs credentialDefinitionId url s) =
              Inr JUndefined)
       \<and> (map_of env ''data'' = None \<or> map_of env ''data'' = Some JNull \<longrightarrow>
            fst (createCredentialOffer fetch connection_id attrs credentialDefinitionId url s) =
              Inl TypeError)"
  using assms by (auto simp add: createCredentialOffer_def client_defs)

text \<open>
  Claim C7, amended, at the responses \<^verbatim>\<open>{data: {}}\<close> and \<^verbatim>\<open>{}\<close>.
\<close>

theorem createCredentialOffer_missing_id_witness:
  "fst (createCredentialOffer scripted (JStr ''conn-1'') attributes credential_definition_id
          offer_url
          \<lparr>world = example_script\<lparr>offer_response := JObj [(''data'', JObj [])]\<rparr>, history = []\<rparr>)
     = Inr JUndefined
   \<and> fst (createCredentialOffer scripted (JStr ''conn-1'') attributes credential_definition_id
          offer_url
          \<lparr>world = example_script\<lparr>offer_response := JObj []\<rparr>, history = []\<rparr>)
     = Inl TypeError"
proof -
  have h1: "scripted (world \<lparr>world = example_script\<lparr>offer_response := JObj [(''data'', JObj [])]\<rparr>, history = []\<rparr>)
      (POST offer_url
         (json_stringify (offer_body (JStr ''conn-1'') attributes credential_definition_id))) =
      (Inr (JObj [(''data'', JObj [])]), example_script\<lparr>offer_response := JObj [(''data'', JObj [])]\<rparr>)"
    by simp
  have h2: "scripted (world \<lparr>world = example_script\<lparr>offer_response := JObj []\<rparr>, history = []\<rparr>)
      (POST offer_url
         (json_stringify (offer_body (JStr ''conn-1'') attributes credential_definition_id))) =
      (Inr (JObj []), example_script\<lparr>offer_response := JObj []\<rparr>)"
    by simp
  show ?thesis
    using createCredentialOffer_missing_id
        [where fetch = scripted and url = offer_url and s = "\<lparr>world = example_script\<lparr>offer_response := JObj [(''data'', JObj [])]\<rparr>, history = []\<rparr>", OF h1]
      createCredentialOffer_missing_id
        [where fetch = scripted and url = offer_url and s = "\<lparr>world = example_script\<lparr>offer_response := JObj []\<rparr>, history = []\<rparr>", OF h2]
    by simp
qed

text \<open>
  Claim C8. In every execution of \<^verbatim>\<open>tests\<close>, an operation of the service client that fails
  is the last thing that happens: its error is the error \<^verbatim>\<open>tests\<close> ends with, and nothing
  follows it, no request, no delay, no console line. And no request is ever sent again:
  each request is followed at once by the result of its operation.
\<close>

theorem failure_ends_the_flow:
  assumes "tests fuel fetch s = (out, s')" and "history s' = history s @ es"
  shows "(\<forall>pre op e post. es = pre @ Result op (Inl e) # post \<longrightarrow> post = [] \<and> out = Threw e)
       \<and> (\<forall>pre op rq post. es = pre @ Request op rq # post \<longrightarrow>
            (\<exists>r post'. post = Result op r # post'))"
proof -
  from tests_events [OF assms(1)] assms(2) have fl: "flow_events out es" by auto
  from flow_events_failure [OF fl] flow_events_settled [OF fl] show ?thesis by blast
qed

text \<open>
  Claim C8 at the scenario whose service rejects the second connection-status poll.
\<close>

theorem failure_ends_the_flow_witness:
  "tests 2 scripted
      \<lparr>world = example_script\<lparr>connection_statuses := [''pending'']\<rparr>, history = []\<rparr> =
     (Threw NetworkError,
      \<lparr>world = example_script\<lparr>connection_statuses := []\<rparr>, history = example_failing\<rparr>)
   \<and> example_failing =
       (example_invited @ poll_round GetConnectionStatus (connection_url @ ''conn-1'') ''pending''
          @ [Delay 2500, Request GetConnectionStatus (GET (connection_url @ ''conn-1''))])
       @ Result GetConnectionStatus (Inl NetworkError) # []
   \<and> (\<exists>r post'. [Result GetConnectionStatus (Inl NetworkError)] =
         Result GetConnectionStatus r # post')"
proof -
  let ?s = "\<lparr>world = example_script\<lparr>connection_statuses := [''pending'']\<rparr>, history = []\<rparr>"
  let ?s' = "\<lparr>world = example_script\<lparr>connection_statuses := []\<rparr>, history = example_failing\<rparr>"
  have run: "tests 2 scripted ?s = (Threw NetworkError, ?s')"
    using failing_run [of 0] by (simp add: numeral_2_eq_2)
  have h: "history ?s' = history ?s @ example_failing" by simp
  have d: "example_failing =
       (example_invited @ poll_round GetConnectionStatus (connection_url @ ''conn-1'') ''pending''
          @ [Delay 2500, Request GetConnectionStatus (GET (connection_url @ ''conn-1''))])
       @ Result GetConnectionStatus (Inl NetworkError) # []"
    by (simp add: example_failing_def)
  have d': "example_failing =
       (example_invited @ poll_round GetConnectionStatus (connection_url @ ''conn-1'') ''pending''
          @ [Delay 2500])
       @ Request GetConnectionStatus (GET (connection_url @ ''conn-1''))
       # [Result GetConnectionStatus (Inl NetworkError)]"
    by (simp add: example_failing_def)
  from failure_ends_the_flow [OF run h] d'
  have "\<exists>r post'. [Result GetConnectionStatus (Inl NetworkError)] =
         Result GetConnectionStatus r # post'"
    by blast
  with run d show ?thesis by blast
qed

text \<open>
  Claim C9. In every execution of \<^verbatim>\<open>tests\<close>: once \<^verbatim>\<open>createInvitation\<close> has returned and the
  console line with the invitation URL is written, nothing but the invitation request
  has been sent, the next event is the delay of 5000 ms, and every later delay is one of
  2500 ms; and every poll request of either loop is sent right after a delay of 2500 ms.
\<close>

theorem grace_period_then_fixed_interval:
  assumes "tests fuel fetch s = (out, s')" and "history s' = history s @ es"
  shows "(\<forall>pre i m post. es = pre @ Result CreateInvitation (Inr i) # Log m # post \<longrightarrow>
            (\<exists>u link. js_get i ''invitationUrl'' = Inr u \<and> js_to_string u = Inr link
               \<and> m = invitation_message link)
            \<and> (\<exists>rq. pre = [Request CreateInvitation rq])
            \<and> (\<exists>rest. post = Delay 5000 # rest
                 \<and> (\<forall>e\<in>set rest. is_delay e \<longrightarrow> e = Delay 2500)))
       \<and> (\<forall>pre op rq post. es = pre @ Request op rq # post \<longrightarrow>
            op = GetConnectionStatus \<or> op = GetCredentialState \<longrightarrow>
            (\<exists>pre'. pre = pre' @ [Delay 2500]))"
proof -
  from tests_events [OF assms(1)] assms(2) have fl: "flow_events out es" by auto
  from flow_events_grace [OF fl] flow_events_poll_delay [OF fl]
  show ?thesis unfolding surfaced_def by blast
qed

text \<open>
  Claim C9 at the end-to-end scenario: the fourth event is the delay of 5000 ms, every
  delay after it is one of 2500 ms, and the first credential-state request follows one.
\<close>

theorem grace_period_then_fixed_interval_witness:
  "tests 3 scripted \<lparr>world = example_script, history = []\<rparr> =
     (Finished,
      \<lparr>world = example_script\<lparr>connection_statuses := [], credential_states := []\<rparr>,
       history = example_connecting @ example_offer @ example_issuing\<rparr>)
   \<and> (\<exists>rest. drop 3 (example_connecting @ example_offer @ example_issuing) = Delay 5000 # rest
         \<and> length (filter is_delay rest) = length (filter (\<lambda>e. e = Delay 2500) rest))
   \<and> (\<exists>pre'. example_connecting @ example_offer @ [Delay 2500] = pre' @ [Delay 2500])"
proof -
  let ?s = "\<lparr>world = example_script, history = []\<rparr>"
  let ?s' = "\<lparr>world = example_script\<lparr>connection_statuses := [], credential_states := []\<rparr>,
       history = example_connecting @ example_offer @ example_issuing\<rparr>"
  let ?es = "example_connecting @ example_offer @ example_issuing"
  let ?i = "JObj [(''invitationUrl'', JStr ''https://wallet.example/inv/abc''),
                  (''connectionId'', JStr ''conn-1'')]"
  have run: "tests 3 scripted ?s = (Finished, ?s')"
    using example_run [of 0] by simp
  have h: "history ?s' = history ?s @ ?es" by simp
  note inst = grace_period_then_fixed_interval [OF run h]
  have d1: "?es = [Request CreateInvitation (POST invitation_url (JObj []))]
      @ Result CreateInvitation (Inr ?i)
      # Log (invitation_message ''https://wallet.example/inv/abc'')
      # drop 3 ?es"
    by (simp add: example_connecting_def example_invited_def)
  have d2: "?es = (example_connecting @ example_offer @ [Delay 2500])
      @ Request GetCredentialState (GET (credential_url @ ''cred-1''))
      # ([Result GetCredentialState (Inr (JStr ''offer-sent'')), Log (JStr ''offer-sent'')]
         @ poll_round GetCredentialState (credential_url @ ''cred-1'') ''done'')"
    by (simp add: example_issuing_def poll_round_def)
  from inst d1 obtain rest where
    rest: "drop 3 ?es = Delay 5000 # rest" "\<forall>e\<in>set rest. is_delay e \<longrightarrow> e = Delay 2500"
    by blast
  have "filter is_delay rest = filter (\<lambda>e. e = Delay 2500) rest"
    using rest(2) by (intro filter_cong) auto
  with rest(1) have a: "\<exists>rest. drop 3 ?es = Delay 5000 # rest
      \<and> length (filter is_delay rest) = length (filter (\<lambda>e. e = Delay 2500) rest)"
    by simp
  from inst d2 have b: "\<exists>pre'. example_connecting @ example_offer @ [Delay 2500] = pre' @ [Delay 2500]"
    by blast
  from run a b show ?thesis by blast
qed

text \<open>
  Claim C10. In either polling loop, whatever the service answers and however long the
  loop is followed, the events it adds hold as many delays as polls (calls of the polling
  operation; as many as requests, when the id has a string form, which a string has),
  and every request is sent right after a delay of 2500 ms. In every execution of
  \<^verbatim>\<open>tests\<close>, the first connection-status request is sent right after the delay of 5000 ms
  and one of 2500 ms.
\<close>

theorem delay_before_every_poll:
  "(connection_loop n fetch cid s = (out, s') \<longrightarrow>
      (\<exists>es. history s' = history s @ es
         \<and> delays es = polls_of GetConnectionStatus es
         \<and> (\<forall>c. js_to_string cid = Inr c \<longrightarrow> delays es = requests_of GetConnectionStatus es)
         \<and> (\<forall>pre rq post. es = pre @ Request GetConnectionStatus rq # post \<longrightarrow>
               (\<exists>pre'. pre = pre' @ [Delay 2500]))))
   \<and> (credential_loop n fetch cid s = (out, s') \<longrightarrow>
      (\<exists>es. history s' = history s @ es
         \<and> delays es = polls_of GetCredentialState es
         \<and> (\<forall>c. js_to_string cid = Inr c \<longrightarrow> delays es = requests_of GetCredentialState es)
         \<and> (\<forall>pre rq post. es = pre @ Request GetCredentialState rq # post \<longrightarrow>
               (\<exists>pre'. pre = pre' @ [Delay 2500]))))
   \<and> (tests n fetch s = (out, s') \<longrightarrow>
      (\<forall>pre rq post. history s' = history s @ pre @ Request GetConnectionStatus rq # post \<longrightarrow>
         requests_of GetConnectionStatus pre = 0 \<longrightarrow>
         (\<exists>pre'. pre = pre' @ [Delay 5000, Delay 2500])))"
proof (intro conjI impI allI)
  assume run: "connection_loop n fetch cid s = (out, s')"
  from connection_loop_events [OF run] obtain es where
    es: "history s' = history s @ es" "loop_events GetConnectionStatus ''trusted'' out es"
    by blast
  have "delays es = requests_of GetConnectionStatus es" if "js_to_string cid = Inr c" for c
    using connection_loop_requests [OF that run] es(1)
    by (simp add: delays_append requests_of_append)
  with es loop_events_delays [OF es(2)] loop_events_request [OF es(2)]
  show "\<exists>es. history s' = history s @ es
         \<and> delays es = polls_of GetConnectionStatus es
         \<and> (\<forall>c. js_to_string cid = Inr c \<longrightarrow> delays es = requests_of GetConnectionStatus es)
         \<and> (\<forall>pre rq post. es = pre @ Request GetConnectionStatus rq # post \<longrightarrow>
               (\<exists>pre'. pre = pre' @ [Delay 2500]))"
    by blast
next
  assume run: "credential_loop n fetch cid s = (out, s')"
  from credential_loop_events [OF run] obtain es where
    es: "history s' = history s @ es" "loop_events GetCredentialState ''done'' out es"
    by blast
  have "delays es = requests_of GetCredentialState es" if "js_to_string cid = Inr c" for c
    using credential_loop_requests [OF that run] es(1)
    by (simp add: delays_append requests_of_append)
  with es loop_events_delays [OF es(2)] loop_events_request [OF es(2)]
  show "\<exists>es. history s' = history s @ es
         \<and> delays es = polls_of GetCredentialState es
         \<and> (\<forall>c. js_to_string cid = Inr c \<longrightarrow> delays es = requests_of GetCredentialState es)
         \<and> (\<forall>pre rq post. es = pre @ Request GetCredentialState rq # post \<longrightarrow>
               (\<exists>pre'. pre = pre' @ [Delay 2500]))"
    by blast
next
  fix pre rq post
  assume run: "tests n fetch s = (out, s')"
    and d: "history s' = history s @ pre @ Request GetConnectionStatus rq # post"
    and z: "requests_of GetConnectionStatus pre = 0"
  from tests_events [OF run] d have "flow_events out (pre @ Request GetConnectionStatus rq # post)"
    by auto
  from flow_events_first_poll [OF this refl z]
  show "\<exists>pre'. pre = pre' @ [Delay 5000, Delay 2500]" .
qed

text \<open>
  Claim C10 at the end-to-end scenario: both loops, and the first connection-status
  request.
\<close>

theorem delay_before_every_poll_witness:
  "(\<exists>es. example_connecting = example_invited @ es
        \<and> delays es = polls_of GetConnectionStatus es
        \<and> delays es = requests_of GetConnectionStatus es
        \<and> (\<exists>pre'. [Delay 2500] = pre' @ [Delay 2500]))
   \<and> (\<exists>es. example_issuing = es
        \<and> delays es = polls_of GetCredentialState es
        \<and> delays es = requests_of GetCredentialState es
        \<and> (\<exists>pre'. [Delay 2500] = pre' @ [Delay 2500]))
   \<and> (\<exists>pre'. example_invited @ [Delay 2500] = pre' @ [Delay 5000, Delay 2500])"
proof -
  let ?s0 = "\<lparr>world = example_script, history = []\<rparr>"
  let ?s2 = "\<lparr>world = example_script, history = example_invited\<rparr>"
  let ?s3 = "\<lparr>world = example_script\<lparr>connection_statuses := []\<rparr>,
       history = example_connecting\<rparr>"
  let ?s4 = "\<lparr>world = example_script\<lparr>connection_statuses := []\<rparr>, history = []\<rparr>"
  let ?s5 = "\<lparr>world = example_script\<lparr>connection_statuses := [], credential_states := []\<rparr>,
       history = example_issuing\<rparr>"
  let ?s' = "\<lparr>world = example_script\<lparr>connection_statuses := [], credential_states := []\<rparr>,
       history = example_connecting @ example_offer @ example_issuing\<rparr>"
  have f: "length [''pending'', ''pending''] + 1 + 0 = (3::nat)"
    and g: "length [''offer-sent''] + 1 + 1 = (3::nat)"
    by simp_all
  have c: "connection_loop 3 scripted (JStr ''conn-1'') ?s2 = (Finished, ?s3)"
    using connection_loop_scripted [of "[''pending'', ''pending'']" ?s2 "[]" 0 "''conn-1''",
        unfolded f]
    by (simp add: example_script_def example_connecting_def del: connection_loop.simps)
  have d: "credential_loop 3 scripted (JStr ''cred-1'') ?s4 = (Finished, ?s5)"
    using credential_loop_scripted [of "[''offer-sent'']" ?s4 "[]" 1 "''cred-1''", unfolded g]
    by (simp add: example_script_def example_issuing_def del: credential_loop.simps)
  have run: "tests 3 scripted ?s0 = (Finished, ?s')"
    using example_run [of 0] by simp
  from delay_before_every_poll [of 3 scripted "JStr ''conn-1''" ?s2 Finished ?s3] c
  obtain es where es: "history ?s3 = history ?s2 @ es"
      "delays es = polls_of GetConnectionStatus es"
      "\<forall>c. js_to_string (JStr ''conn-1'') = Inr c \<longrightarrow> delays es = requests_of GetConnectionStatus es"
      "\<forall>pre rq post. es = pre @ Request GetConnectionStatus rq # post \<longrightarrow>
               (\<exists>pre'. pre = pre' @ [Delay 2500])"
    by blast
  from es(1) have e1: "es = poll_round GetConnectionStatus (connection_url @ ''conn-1'') ''pending''
     @ poll_round GetConnectionStatus (connection_url @ ''conn-1'') ''pending''
     @ poll_round GetConnectionStatus (connection_url @ ''conn-1'') ''trusted''"
    by (simp add: example_connecting_def)
  have "es = [Delay 2500] @ Request GetConnectionStatus (GET (connection_url @ ''conn-1''))
      # tl (tl es)"
    unfolding e1 by (simp add: poll_round_def)
  with es(4) have "\<exists>pre'. [Delay 2500] = pre' @ [Delay 2500]" by blast
  moreover from es(3) have "delays es = requests_of GetConnectionStatus es" by simp
  ultimately have a: "\<exists>es. example_connecting = example_invited @ es
        \<and> delays es = polls_of GetConnectionStatus es
        \<and> delays es = requests_of GetConnectionStatus es
        \<and> (\<exists>pre'. [Delay 2500] = pre' @ [Delay 2500])"
    using es(1,2) by auto
  from delay_before_every_poll [of 3 scripted "JStr ''cred-1''" ?s4 Finished ?s5] d
  obtain es' where es': "history ?s5 = history ?s4 @ es'"
      "delays es' = polls_of GetCredentialState es'"
      "\<forall>c. js_to_string (JStr ''cred-1'') = Inr c \<longrightarrow> delays es' = requests_of GetCredentialState es'"
      "\<forall>pre rq post. es' = pre @ Request GetCredentialState rq # post \<longrightarrow>
               (\<exists>pre'. pre = pre' @ [Delay 2500])"
    by blast
  have "es' = [Delay 2500] @ Request GetCredentialState (GET (credential_url @ ''cred-1''))
      # tl (tl es')"
    using es'(1) by (auto simp add: example_issuing_def poll_round_def)
  with es'(4) have "\<exists>pre'. [Delay 2500] = pre' @ [Delay 2500]" by blast
  moreover from es'(3) have "delays es' = requests_of GetCredentialState es'" by simp
  ultimately have b: "\<exists>es. example_issuing = es
        \<and> delays es = polls_of GetCredentialState es
        \<and> delays es = requests_of GetCredentialState es
        \<and> (\<exists>pre'. [Delay 2500] = pre' @ [Delay 2500])"
    using es'(1,2) by auto
  have dd: "history ?s' = history ?s0 @ (example_invited @ [Delay 2500])
      @ Request GetConnectionStatus (GET (connection_url @ ''conn-1''))
      # (tl (tl (poll_round GetConnectionStatus (connection_url @ ''conn-1'') ''pending''))
         @ poll_round GetConnectionStatus (connection_url @ ''conn-1'') ''pending''
         @ poll_round GetConnectionStatus (connection_url @ ''conn-1'') ''trusted''
         @ example_offer @ example_issuing)"
    by (simp add: example_connecting_def poll_round_def)
  have z: "requests_of GetConnectionStatus (example_invited @ [Delay 2500]) = 0"
    by (simp add: requests_of_def example_invited_def)
  from delay_before_every_poll [of 3 scripted "JStr ''conn-1''" ?s0 Finished ?s'] run dd z
  have cc: "\<exists>pre'. example_invited @ [Delay 2500] = pre' @ [Delay 5000, Delay 2500]"
    by blast
  from a b cc show ?thesis by blast
qed

end
